theory Spec2Isabelle
  imports Main "HOL-Library.Sublist"
begin

chapter \<open>The job scanner: a shallow embedding and its properties\<close>

text \<open>
  The repository holds one scraper in several successive versions. Two of them are
  embedded here in full:
  \<^item> \<^verbatim>\<open>src/job_scan.py\<close> (functions \<^verbatim>\<open>clean_salary_text\<close>, \<^verbatim>\<open>parse_job_data\<close>,
    \<^verbatim>\<open>save_job\<close>, \<^verbatim>\<open>run\<close>); its definitions carry the suffix \<open>_scan\<close> where the
    name is shared with the other version;
  \<^item> the last version of \<^verbatim>\<open>job_scan copy.py\<close> (lines 1375 to 2307 of
    \<^verbatim>\<open>src/unnamed/part_000\<close>: \<^verbatim>\<open>fix_doubled_title\<close>, \<^verbatim>\<open>clean_salary_text\<close>,
    \<^verbatim>\<open>parse_job_data\<close>, the SimplyHired loop of \<^verbatim>\<open>run_scraper\<close>), under the source's
    names;
  and \<^verbatim>\<open>extract_qualifications\<close> of the third version (lines 1103 to 1123).

  The browser is the environment. Every read of the page (an element's text, an
  attribute, a click) is a field of an environment record, and a read that raises is a
  value of that field, so that every \<^verbatim>\<open>try\<close>/\<^verbatim>\<open>except\<close> of the source is a branch of
  the model.
\<close>

section \<open>Python strings\<close>

text \<open>
  A Python \<^verbatim>\<open>str\<close> is a sequence of code points; \<open>string\<close> is a list of 8-bit
  characters. A character stands for the code point of its number (Latin-1), with two
  exceptions: the characters 0x96 and 0x97 stand for the en dash U+2013 and the em dash
  U+2014, which the salary patterns mention. Neither is white space, a digit or a cased
  letter, under either reading.
\<close>

definition en_dash :: char where
  "en_dash = CHR 0x96"

definition em_dash :: char where
  "em_dash = CHR 0x97"

text \<open>\<^verbatim>\<open>str.isspace\<close> on one code point, which is also the class \<^verbatim>\<open>\s\<close> of \<^verbatim>\<open>re\<close>.\<close>

definition isspace :: "char \<Rightarrow> bool" where
  "isspace c = (of_char c \<in> {9, 10, 11, 12, 13, 28, 29, 30, 31, 32, 133, 160 :: nat})"

text \<open>The class \<^verbatim>\<open>\d\<close> of \<^verbatim>\<open>re\<close>: the decimal digits (category Nd).\<close>

definition isdigit :: "char \<Rightarrow> bool" where
  "isdigit c = (48 \<le> (of_char c :: nat) \<and> (of_char c :: nat) \<le> 57)"

text \<open>\<^verbatim>\<open>str.lower\<close>: the upper-case letters are A to Z and U+00C0 to U+00DE without
  the multiplication sign U+00D7.\<close>

definition lower_char :: "char \<Rightarrow> char" where
  "lower_char c =
     (let n = of_char c :: nat
      in if (65 \<le> n \<and> n \<le> 90) \<or> (192 \<le> n \<and> n \<le> 222 \<and> n \<noteq> 215)
         then char_of (n + 32) else c)"

definition lower :: "string \<Rightarrow> string" where
  "lower s = map lower_char s"

text \<open>\<^verbatim>\<open>s.strip()\<close>.\<close>

definition strip :: "string \<Rightarrow> string" where
  "strip s = rev (dropWhile isspace (rev (dropWhile isspace s)))"

text \<open>
  \<^verbatim>\<open>s.split()\<close> without arguments: runs of white space separate the words and no word
  is empty. \<open>pieces\<close> cuts at every white space character; \<open>split\<close> drops the empty
  pieces.
\<close>

fun pieces :: "string \<Rightarrow> string list" where
  "pieces [] = [[]]"
| "pieces (c # cs) =
     (if isspace c then [] # pieces cs
      else (case pieces cs of [] \<Rightarrow> [[c]] | w # ws \<Rightarrow> (c # w) # ws))"

definition split :: "string \<Rightarrow> string list" where
  "split s = filter (\<lambda>w. w \<noteq> []) (pieces s)"

text \<open>\<^verbatim>\<open>sep.join(xs)\<close>.\<close>

fun join :: "string \<Rightarrow> string list \<Rightarrow> string" where
  "join sep [] = []"
| "join sep [x] = x"
| "join sep (x # y # ys) = x @ sep @ join sep (y # ys)"

text \<open>\<^verbatim>\<open>s.split(c)[0]\<close> for a single character \<open>c\<close>: the text before the first \<open>c\<close>.\<close>

definition before_first :: "char \<Rightarrow> string \<Rightarrow> string" where
  "before_first c s = takeWhile (\<lambda>x. x \<noteq> c) s"

text \<open>\<^verbatim>\<open>s.replace(old, "")\<close> for a non-empty \<open>old\<close>: every occurrence, left to right.\<close>

function remove_all :: "string \<Rightarrow> string \<Rightarrow> string" where
  "remove_all old s =
     (if old = [] \<or> s = [] then s
      else if prefix old s then remove_all old (drop (length old) s)
      else hd s # remove_all old (tl s))"
  by pat_completeness auto
termination
  by (relation "measure (\<lambda>(old, s). length s)") auto

text \<open>
  \<^verbatim>\<open>a in b\<close> on strings is \<^term>\<open>sublist a b\<close>, \<^verbatim>\<open>s.startswith(p)\<close> is
  \<^term>\<open>prefix p s\<close> and \<^verbatim>\<open>s[:n]\<close> is \<^term>\<open>take n s\<close>.
\<close>

section \<open>Regular expressions as \<^verbatim>\<open>re\<close> matches them\<close>

text \<open>
  \<^verbatim>\<open>re\<close> is a backtracking matcher: alternatives are tried left to right, a quantifier
  is greedy, and the first way to match that succeeds is the match. \<open>matches r s\<close> lists
  what is left of \<open>s\<close> after each way to match \<open>r\<close> at its start, in the order in which
  the matcher tries them.
\<close>

datatype re =
    Eps
  | Sym "char \<Rightarrow> bool"
  | Seq re re
  | Alt re re
  | Star re

fun matches :: "re \<Rightarrow> string \<Rightarrow> string list" where
  "matches Eps s = [s]"
| "matches (Sym p) s = (case s of [] \<Rightarrow> [] | c # cs \<Rightarrow> if p c then [cs] else [])"
| "matches (Seq a b) s = concat (map (matches b) (matches a s))"
| "matches (Alt a b) s = matches a s @ matches b s"
| "matches (Star a) s =
     concat (map (\<lambda>s'. if length s' < length s then matches (Star a) s' else []) (matches a s))
     @ [s]"

text \<open>The equation of \<open>Star\<close> unfolds for ever as a rewrite rule; it is used by name.\<close>

declare matches.simps(5) [simp del]

text \<open>\<^verbatim>\<open>r?\<close>, \<^verbatim>\<open>r+\<close> and \<^verbatim>\<open>r{1,3}\<close>, all greedy.\<close>

definition Opt :: "re \<Rightarrow> re" where
  "Opt r = Alt r Eps"

definition Plus :: "re \<Rightarrow> re" where
  "Plus r = Seq r (Star r)"

definition Rep13 :: "re \<Rightarrow> re" where
  "Rep13 r = Seq r (Opt (Seq r (Opt r)))"

text \<open>A literal character and a literal word under \<^verbatim>\<open>re.IGNORECASE\<close>.\<close>

definition ci :: "char \<Rightarrow> re" where
  "ci c = Sym (\<lambda>x. lower_char x = lower_char c)"

fun word :: "string \<Rightarrow> re" where
  "word [] = Eps"
| "word [c] = ci c"
| "word (c # cs) = Seq (ci c) (word cs)"

definition white :: re where
  "white = Sym isspace"

definition digit :: re where
  "digit = Sym isdigit"

text \<open>
  \<^verbatim>\<open>pattern.search(s)\<close>: the first position of \<open>s\<close>, from the left, where the pattern
  matches, and the text of the match there (\<^verbatim>\<open>m.group(0)\<close>).
\<close>

fun search :: "re \<Rightarrow> string \<Rightarrow> string option" where
  "search r [] = (case matches r [] of [] \<Rightarrow> None | rest # _ \<Rightarrow> Some [])"
| "search r (c # cs) =
     (case matches r (c # cs) of
        [] \<Rightarrow> search r cs
      | rest # _ \<Rightarrow> Some (take (length (c # cs) - length rest) (c # cs)))"

section \<open>The salary normalizer\<close>

text \<open>
  \<^verbatim>\<open>SALARY_RE\<close> of \<^verbatim>\<open>job_scan copy.py\<close>, compiled with \<^verbatim>\<open>re.IGNORECASE | re.VERBOSE\<close>:
  \<^verbatim>\<open>
  (?:CA?\$|C\$|\$)\s*[\d]{1,3}(?:[,\s]\d{3})*(?:\.\d+)?\s*[kK]?
  (?:\s*(?:-|en dash|em dash|to)\s*
      (?:CA?\$|C\$|\$)?\s*[\d]{1,3}(?:[,\s]\d{3})*(?:\.\d+)?\s*[kK]?
  )?
  (?:\s*(?:/|per\s*)?(?:hour|hr|year|yr|month|mo|week|wk|day|annum))?
  \<close>
\<close>

definition currency :: re where
  "currency =
     Alt (Seq (ci CHR ''C'') (Seq (Opt (ci CHR ''A'')) (ci CHR ''$'')))
    (Alt (Seq (ci CHR ''C'') (ci CHR ''$''))
         (ci CHR ''$''))"

text \<open>\<^verbatim>\<open>[,\s]\d{3}\<close>, \<^verbatim>\<open>\.\d+\<close> and \<^verbatim>\<open>[kK]\<close>\<close>

definition thousands :: re where
  "thousands = Seq (Sym (\<lambda>x. x = CHR '','' \<or> isspace x)) (Seq digit (Seq digit digit))"

definition fraction :: re where
  "fraction = Seq (ci CHR ''.'') (Plus digit)"

definition kilo :: re where
  "kilo = Sym (\<lambda>x. lower_char x = CHR ''k'')"

text \<open>\<^verbatim>\<open>\s*[\d]{1,3}(?:[,\s]\d{3})*(?:\.\d+)?\s*[kK]?\<close>\<close>

definition amount :: re where
  "amount =
     Seq (Star white)
    (Seq (Rep13 digit)
    (Seq (Star thousands)
    (Seq (Opt fraction)
    (Seq (Star white)
         (Opt kilo)))))"

definition range_sep :: re where
  "range_sep = Alt (ci CHR ''-'') (Alt (ci en_dash) (Alt (ci em_dash) (word ''to'')))"

definition pay_unit :: re where
  "pay_unit =
     Alt (word ''hour'') (Alt (word ''hr'') (Alt (word ''year'') (Alt (word ''yr'')
    (Alt (word ''month'') (Alt (word ''mo'') (Alt (word ''week'') (Alt (word ''wk'')
    (Alt (word ''day'') (word ''annum'')))))))))"

text \<open>The second and the third line of the pattern, without their \<^verbatim>\<open>?\<close>.\<close>

definition range_part :: re where
  "range_part = Seq (Star white) (Seq range_sep (Seq (Star white) (Seq (Opt currency) amount)))"

definition unit_part :: re where
  "unit_part =
     Seq (Star white)
    (Seq (Opt (Alt (ci CHR ''/'') (Seq (word ''per'') (Star white))))
         pay_unit)"

definition SALARY_RE :: re where
  "SALARY_RE = Seq currency (Seq amount (Seq (Opt range_part) (Opt unit_part)))"

text \<open>
  \<^verbatim>\<open>clean_salary_text\<close> of \<^verbatim>\<open>job_scan copy.py\<close> (the same in all its versions). The
  argument is \<open>None\<close> for Python's \<^verbatim>\<open>None\<close>; \<^verbatim>\<open>not text\<close> holds for \<^verbatim>\<open>None\<close> and for
  the empty string. The pattern is a parameter of \<open>clean_salary_with\<close>, so that what
  the function does before it evaluates the pattern can be stated for every pattern.
\<close>

definition clean_salary_with :: "re \<Rightarrow> string option \<Rightarrow> string" where
  "clean_salary_with pat text =
     (case text of
        None \<Rightarrow> ''N/A''
      | Some s \<Rightarrow>
          if s = [] then ''N/A''
          else let t = join '' '' (split s)
               in (case search pat t of Some m \<Rightarrow> strip m | None \<Rightarrow> ''N/A''))"

definition clean_salary_text :: "string option \<Rightarrow> string" where
  "clean_salary_text text = clean_salary_with SALARY_RE text"

text \<open>
  \<^verbatim>\<open>salary_pattern\<close> of \<^verbatim>\<open>src/job_scan.py\<close>, searched with \<^verbatim>\<open>re.IGNORECASE\<close>:
  \<^verbatim>\<open>
  \$\s*[\d,]+(?:\.\d{2})?\s*(?:[-en dash em dash]\s*\$?\s*[\d,]+(?:\.\d{2})?)?
  (?:\s*(?:a|per|/)\s*(?:year|yr|annum|hour|hr|month|mo))?
  \<close>
\<close>

definition digits_commas :: re where
  "digits_commas = Plus (Sym (\<lambda>x. isdigit x \<or> x = CHR '',''))"

definition cents :: re where
  "cents = Opt (Seq (ci CHR ''.'') (Seq digit digit))"

definition dash :: re where
  "dash = Sym (\<lambda>x. x = CHR ''-'' \<or> x = en_dash \<or> x = em_dash)"

definition scan_pay_unit :: re where
  "scan_pay_unit =
     Alt (word ''year'') (Alt (word ''yr'') (Alt (word ''annum'')
    (Alt (word ''hour'') (Alt (word ''hr'') (Alt (word ''month'')
         (word ''mo''))))))"

text \<open>The two optional groups of the pattern, without their \<^verbatim>\<open>?\<close>.\<close>

definition scan_range_part :: re where
  "scan_range_part =
     Seq dash (Seq (Star white) (Seq (Opt (ci CHR ''$'')) (Seq (Star white)
    (Seq digits_commas cents))))"

definition scan_unit_part :: re where
  "scan_unit_part =
     Seq (Star white)
    (Seq (Alt (word ''a'') (Alt (word ''per'') (ci CHR ''/'')))
    (Seq (Star white)
         scan_pay_unit))"

definition salary_pattern :: re where
  "salary_pattern =
     Seq (ci CHR ''$'')
    (Seq (Star white)
    (Seq digits_commas
    (Seq cents
    (Seq (Star white)
    (Seq (Opt scan_range_part)
         (Opt scan_unit_part))))))"

text \<open>\<^verbatim>\<open>clean_salary_text\<close> of \<^verbatim>\<open>src/job_scan.py\<close>: no white space is collapsed.\<close>

definition clean_salary_text_scan :: "string option \<Rightarrow> string" where
  "clean_salary_text_scan text =
     (case text of
        None \<Rightarrow> ''N/A''
      | Some s \<Rightarrow>
          if s = [] then ''N/A''
          else (case search salary_pattern s of Some m \<Rightarrow> strip m | None \<Rightarrow> ''N/A''))"

section \<open>Titles\<close>

text \<open>\<^verbatim>\<open>norm\<close> and \<^verbatim>\<open>is_missing\<close>, on strings (\<^verbatim>\<open>str(s or "")\<close> of a string is the
  string).\<close>

definition norm :: "string \<Rightarrow> string" where
  "norm s = strip s"

definition is_missing :: "string \<Rightarrow> bool" where
  "is_missing s0 =
     (let s = norm s0
      in s = [] \<or> lower s \<in> {''n/a'', ''na'', ''none'', ''null''})"

definition fix_doubled_title :: "string \<Rightarrow> string" where
  "fix_doubled_title text0 =
     (if text0 = [] then []
      else let text = join '' '' (split text0);
               parts = split text;
               half = length parts div 2
           in if length parts \<ge> 2 \<and> length parts mod 2 = 0 \<and> take half parts = drop half parts
              then join '' '' (take half parts)
              else let mid = length text div 2
                   in if length text > 4 \<and> length text mod 2 = 0 \<and> take mid text = drop mid text
                      then take mid text
                      else text)"

section \<open>Configuration\<close>

text \<open>
  The module constants the run reads. They are a record, so that a property of the run
  holds for every value of the caps and of the keyword lists; \<open>scraper_config\<close> and
  \<open>scan_config\<close> are the values the two versions give them.
\<close>

record config =
  KEYWORDS :: "string list"
  MAX_JOBS_TO_SCRAPE :: nat
  MAX_PAGES_PER_KEYWORD :: nat
  BAD_KEYWORDS :: "string list"
  STRONG_KEYWORDS :: "string list"
  AMBIGUOUS_KEYWORDS :: "string list"
  TECH_KEYWORDS :: "string list"

text \<open>\<^verbatim>\<open>job_scan copy.py\<close>, last version.\<close>

definition scraper_config :: config where
  "scraper_config = \<lparr>
     KEYWORDS = [''data analytics, statistical modeling''],
     MAX_JOBS_TO_SCRAPE = 60,
     MAX_PAGES_PER_KEYWORD = 3,
     BAD_KEYWORDS = [
       ''intern'', ''co-op'', ''coop'', ''student'', ''summer'', ''placement'',
       ''manager'', ''director'', ''head of'', ''vp'', ''president'', ''chief'', ''principal'', ''lead'',
       ''sales'', ''customer service'', ''technician'', ''support'', ''clerk'', ''admin'',
       ''marketing'', ''account executive'', ''driver'', ''warehouse'', ''nurse'', ''bilingual'',
       ''business analyst'', ''business systems analyst'', ''business system analyst'',
       ''financial analyst''],
     STRONG_KEYWORDS = [
       ''data scientist'', ''data engineer'', ''machine learning'', ''ai engineer'', ''analytics'',
       ''computer vision'', ''nlp'', ''business intelligence'', ''deep learning'',
       ''data analyst'', ''quantitative researcher'', ''statistical modeling'', ''statistician''],
     AMBIGUOUS_KEYWORDS = [
       ''analyst'', ''insights'', ''consultant'', ''scientist'', ''researcher'',
       ''strategist'', ''specialist'', ''associate''],
     TECH_KEYWORDS = [
       ''sql'', ''python'', '' r '', ''r-programming'', ''tableau'', ''power bi'', ''powerbi'',
       ''aws'', ''azure'', ''gcp'', ''snowflake'', ''etl'', ''pipeline'', ''modeling'', ''models'',
       ''machine learning'', ''statistical'', ''looker'', ''bigquery'', ''spark'', ''hadoop'']
   \<rparr>"

text \<open>\<^verbatim>\<open>src/job_scan.py\<close>.\<close>

definition scan_config :: config where
  "scan_config = \<lparr>
     KEYWORDS = [''data scientist'', ''data analyst''],
     MAX_JOBS_TO_SCRAPE = 500,
     MAX_PAGES_PER_KEYWORD = 15,
     BAD_KEYWORDS = [
       ''intern'', ''co-op'', ''coop'', ''student'', ''summer'', ''placement'',
       ''manager'', ''director'', ''head of'', ''vp'', ''president'', ''chief'', ''principal'', ''lead'',
       ''sales'', ''customer service'', ''technician'', ''support'', ''clerk'', ''admin'', ''engineer'',
       ''marketing'', ''account executive'', ''driver'', ''warehouse'', ''nurse'', ''bilingual'',
       ''business analyst'', ''business systems analyst'', ''business system analyst''],
     STRONG_KEYWORDS = [
       ''data scientist'', ''data engineer'', ''machine learning'', ''ai engineer'',
       ''computer vision'', ''nlp'', ''business intelligence'', ''deep learning'',
       ''data analyst'', ''quantitative researcher''],
     AMBIGUOUS_KEYWORDS = [
       ''analyst'', ''insights'', ''consultant'', ''scientist'', ''researcher'',
       ''strategist'', ''specialist'', ''associate''],
     TECH_KEYWORDS = [
       ''sql'', ''python'', '' r '', ''r-programming'', ''tableau'', ''power bi'', ''powerbi'',
       ''aws'', ''azure'', ''gcp'', ''snowflake'', ''etl'', ''pipeline'', ''modeling'',
       ''machine learning'', ''statistical'', ''looker'', ''bigquery'', ''spark'', ''hadoop'']
   \<rparr>"

text \<open>The strict field validation flags of \<^verbatim>\<open>job_scan copy.py\<close>.\<close>

definition REQUIRE_COMPANY :: bool where
  "REQUIRE_COMPANY = True"

definition REQUIRE_SALARY :: bool where
  "REQUIRE_SALARY = False"

section \<open>The relevance classifier\<close>

text \<open>
  The verdict on a title: the variable \<^verbatim>\<open>relevance_type\<close> of \<^verbatim>\<open>run_scraper\<close>
  (\<^verbatim>\<open>relevance\<close> of \<^verbatim>\<open>run\<close>, with the values \<^verbatim>\<open>"SKIP"\<close>, \<^verbatim>\<open>"KEEP"\<close> and \<^verbatim>\<open>"CHECK"\<close>).
  Both loops compute it by the same statements: a title with a bad keyword is left by
  \<^verbatim>\<open>continue\<close> before \<^verbatim>\<open>relevance_type\<close> is assigned, and a title with verdict
  \<^verbatim>\<open>"SKIP"\<close> is left by the next \<^verbatim>\<open>continue\<close>; \<open>SKIP\<close> stands for both.
\<close>

datatype relevance = SKIP | KEEP_IMMEDIATE | CHECK_DESCRIPTION

text \<open>\<^verbatim>\<open>any(k in text for k in keywords)\<close>\<close>

definition any_in :: "string list \<Rightarrow> string \<Rightarrow> bool" where
  "any_in keywords text = list_ex (\<lambda>k. sublist k text) keywords"

definition classify_title :: "config \<Rightarrow> string \<Rightarrow> relevance" where
  "classify_title cfg raw_title =
     (let title_lower = lower raw_title
      in if any_in (BAD_KEYWORDS cfg) title_lower then SKIP
         else if any_in (STRONG_KEYWORDS cfg) title_lower then KEEP_IMMEDIATE
         else if any_in (AMBIGUOUS_KEYWORDS cfg) title_lower then CHECK_DESCRIPTION
         else SKIP)"

text \<open>
  The decision \<^verbatim>\<open>should_save\<close> of \<^verbatim>\<open>run_scraper\<close> from the verdict and the record's
  description.
\<close>

definition should_save :: "config \<Rightarrow> relevance \<Rightarrow> string \<Rightarrow> bool" where
  "should_save cfg relevance_type description =
     (case relevance_type of
        KEEP_IMMEDIATE \<Rightarrow> True
      | CHECK_DESCRIPTION \<Rightarrow>
          if description \<noteq> ''N/A'' then any_in (TECH_KEYWORDS cfg) (lower description)
          else False
      | SKIP \<Rightarrow> False)"

section \<open>The page as the program reads it\<close>

text \<open>A read of the page either raises or gives a value.\<close>

datatype 'a attempt = Raises | Gives 'a

text \<open>
  What \<^verbatim>\<open>BeautifulSoup(card.get_attribute("outerHTML"), "lxml")\<close> holds, as far as the
  program looks: the title anchor (the first \<^verbatim>\<open>a\<close> whose class contains
  \<^verbatim>\<open>jobTitle\<close>, else the first \<^verbatim>\<open>a\<close>) with its text (\<^verbatim>\<open>get_text(strip=True)\<close>) and its
  \<^verbatim>\<open>href\<close> attribute, and the texts of the company, location and salary spans.
  \<open>None\<close> is a tag or an attribute that is not there.
\<close>

record anchor =
  anchor_text :: string
  anchor_href :: "string option"

record card_soup =
  title_tag :: "anchor option"
  company_tag :: "string option"
  location_tag :: "string option"
  salary_tag :: "string option"

text \<open>\<^verbatim>\<open>title_tag.get("href", "") if title_tag else ""\<close>\<close>

definition href_of :: "anchor option \<Rightarrow> string" where
  "href_of tag =
     (case tag of
        None \<Rightarrow> []
      | Some a \<Rightarrow> (case anchor_href a of None \<Rightarrow> [] | Some h \<Rightarrow> h))"

text \<open>
  What the browser shows while \<^verbatim>\<open>parse_job_data\<close> of \<^verbatim>\<open>job_scan copy.py\<close> handles one
  card, in the order of the reads:
  \<^item> \<open>card_html\<close>: the parsed card; \<open>Raises\<close> when reading or parsing it raises;
  \<^item> \<open>scroll_ok\<close>, \<open>link_click_ok\<close>, \<open>script_click_ok\<close>: whether the scroll script, the
    click on the card's link and the click by script return;
  \<^item> \<open>pane_text k sel\<close>: the text of the element \<open>sel\<close> of the detail pane at the
    \<open>k\<close>-th poll of the synchronization loop, \<open>Raises\<close> when the element is not found
    or reading it raises;
  \<^item> \<open>description_polls\<close>: the reads of the description element, one for each turn of
    the loop \<^verbatim>\<open>while (time.time() - start_desc_time) < 6.0\<close> that the clock allows;
  \<^item> \<open>compensation_text\<close>, \<open>container_text\<close>: the texts of the compensation box and
    of the whole detail pane;
  \<^item> \<open>qualification_items\<close>: the texts of the qualification items (\<^verbatim>\<open>q.text\<close>),
    \<open>Raises\<close> when finding or reading them raises;
  \<^item> \<open>clock\<close>: \<^verbatim>\<open>time.strftime("%Y-%m-%d %H:%M:%S")\<close>.
\<close>

record pane_env =
  card_html :: "card_soup attempt"
  scroll_ok :: bool
  link_click_ok :: bool
  script_click_ok :: bool
  pane_text :: "nat \<Rightarrow> string \<Rightarrow> string attempt"
  description_polls :: "string attempt list"
  compensation_text :: "string attempt"
  container_text :: "string attempt"
  qualification_items :: "string list attempt"
  clock :: string

section \<open>\<^verbatim>\<open>parse_job_data\<close> of \<^verbatim>\<open>job_scan copy.py\<close>\<close>

text \<open>The record \<^verbatim>\<open>data\<close> that \<^verbatim>\<open>parse_job_data\<close> returns: the dictionary has these seven
  keys whenever it is returned.\<close>

record job =
  title :: string
  url :: string
  company :: string
  description :: string
  salary :: string
  qualifications :: string
  scraped_at :: string

text \<open>
  \<^verbatim>\<open>("https://www.simplyhired.ca" + href.split("?")[0]) if href and not
  href.startswith("http") else href\<close>
\<close>

definition card_url :: "string \<Rightarrow> string" where
  "card_url href =
     (if href \<noteq> [] \<and> \<not> prefix ''http'' href
      then ''https://www.simplyhired.ca'' @ before_first CHR ''?'' href
      else href)"

text \<open>The selectors of the detail pane and the field each is compared with.\<close>

definition pane_checks :: "(string \<times> string) list" where
  "pane_checks =
     [(''span[data-testid=\"viewJobCompanyName\"]'', ''company''),
      (''[data-testid=\"viewJobCompanyName\"]'', ''company''),
      (''h2[data-testid=\"viewJobBodyJobTitle\"]'', ''title'')]"

text \<open>
  The loose comparisons of the synchronization loop, on the stripped text \<open>txt\<close> of a
  pane element: the company in either direction, the title by its first ten characters.
\<close>

definition company_matches :: "string \<Rightarrow> string \<Rightarrow> bool" where
  "company_matches card_company txt =
     (sublist (lower card_company) (lower txt) \<or> sublist (lower txt) (lower card_company))"

definition title_matches :: "string \<Rightarrow> string \<Rightarrow> bool" where
  "title_matches card_title txt = sublist (lower (take 10 card_title)) (lower txt)"

text \<open>One turn of the inner loop: the body of \<^verbatim>\<open>for sel, type_ in pane_checks\<close> sets
  \<^verbatim>\<open>pane_matched\<close> or goes on to the next selector.\<close>

definition pane_check :: "pane_env \<Rightarrow> string \<Rightarrow> string \<Rightarrow> nat \<Rightarrow> string \<times> string \<Rightarrow> bool" where
  "pane_check env card_title card_company k check =
     (case pane_text env k (fst check) of
        Raises \<Rightarrow> False
      | Gives t \<Rightarrow>
          let txt = strip t
          in if txt = [] then False
             else if snd check = ''company'' then company_matches card_company txt
             else if snd check = ''title'' then title_matches card_title txt
             else False)"

fun pane_scan :: "pane_env \<Rightarrow> string \<Rightarrow> string \<Rightarrow> nat \<Rightarrow> (string \<times> string) list \<Rightarrow> bool" where
  "pane_scan env card_title card_company k [] = False"
| "pane_scan env card_title card_company k (check # checks) =
     (if pane_check env card_title card_company k check then True
      else pane_scan env card_title card_company k checks)"

text \<open>\<^verbatim>\<open>for _ in range(15)\<close>: \<open>sync_polls env t c k n\<close> runs \<open>n\<close> polls from the \<open>k\<close>-th on
  and gives \<^verbatim>\<open>pane_matched\<close>.\<close>

fun sync_polls :: "pane_env \<Rightarrow> string \<Rightarrow> string \<Rightarrow> nat \<Rightarrow> nat \<Rightarrow> bool" where
  "sync_polls env card_title card_company k 0 = False"
| "sync_polls env card_title card_company k (Suc n) =
     (if pane_scan env card_title card_company k pane_checks then True
      else sync_polls env card_title card_company (Suc k) n)"

definition pane_matched :: "pane_env \<Rightarrow> string \<Rightarrow> string \<Rightarrow> bool" where
  "pane_matched env card_title card_company = sync_polls env card_title card_company 0 15"

text \<open>The description loop: the first read that is not empty and differs from the
  previous description (or any non-empty read when there is no previous description).\<close>

fun poll_description :: "string attempt list \<Rightarrow> string \<Rightarrow> string" where
  "poll_description [] prev_desc = ''N/A''"
| "poll_description (r # rs) prev_desc =
     (case r of
        Raises \<Rightarrow> poll_description rs prev_desc
      | Gives t \<Rightarrow>
          let txt = strip t
          in if txt \<noteq> [] \<and> (txt \<noteq> prev_desc \<or> prev_desc = []) then txt
             else poll_description rs prev_desc)"

definition pane_salary :: "pane_env \<Rightarrow> string" where
  "pane_salary env =
     (case compensation_text env of
        Gives t \<Rightarrow> clean_salary_text (Some t)
      | Raises \<Rightarrow>
          (case container_text env of
             Gives t \<Rightarrow> clean_salary_text (Some t)
           | Raises \<Rightarrow> ''N/A''))"

text \<open>\<^verbatim>\<open>"; ".join(q.text.strip() for q in quals if q.text and q.text.strip()) or "N/A"\<close>\<close>

definition pane_qualifications :: "string list attempt \<Rightarrow> string" where
  "pane_qualifications items =
     (case items of
        Raises \<Rightarrow> ''N/A''
      | Gives quals \<Rightarrow>
          let joined = join ''; '' (map strip (filter (\<lambda>t. t \<noteq> [] \<and> strip t \<noteq> []) quals))
          in if joined = [] then ''N/A'' else joined)"

text \<open>The trusted data of the card: title, link and company.\<close>

definition card_title_of :: "card_soup \<Rightarrow> string" where
  "card_title_of soup =
     (case title_tag soup of Some a \<Rightarrow> fix_doubled_title (anchor_text a) | None \<Rightarrow> [])"

definition card_company_of :: "card_soup \<Rightarrow> string" where
  "card_company_of soup = (case company_tag soup of Some c \<Rightarrow> c | None \<Rightarrow> [])"

text \<open>\<^verbatim>\<open>parse_job_data(driver, card, prev_desc)\<close>; \<open>None\<close> is Python's \<^verbatim>\<open>None\<close>.\<close>

definition parse_job_data :: "pane_env \<Rightarrow> string \<Rightarrow> job option" where
  "parse_job_data env prev_desc =
     (case card_html env of
        Raises \<Rightarrow> None
      | Gives soup \<Rightarrow>
          let card_title = card_title_of soup;
              card_link = card_url (href_of (title_tag soup));
              card_company = card_company_of soup
          in if is_missing card_title \<or> is_missing card_link then None
             else if REQUIRE_COMPANY \<and> is_missing card_company then None
             else if \<not> scroll_ok env \<or> (\<not> link_click_ok env \<and> \<not> script_click_ok env) then None
             else if \<not> pane_matched env card_title card_company then None
             else let desc_text = poll_description (description_polls env) prev_desc;
                      sal = pane_salary env
                  in if REQUIRE_SALARY \<and> is_missing sal then None
                     else Some \<lparr> title = card_title, url = card_link, company = card_company,
                                 description = desc_text, salary = sal,
                                 qualifications = pane_qualifications (qualification_items env),
                                 scraped_at = clock env \<rparr>)"

section \<open>The SimplyHired loop of \<^verbatim>\<open>run_scraper\<close>\<close>

text \<open>
  The state of the run: the two sets of the duplicate tracker, the buffer of accepted
  records and the running count.
\<close>

record run_state =
  seen_urls :: "string set"
  seen_signatures :: "(string \<times> string) set"
  new_jobs_buffer :: "job list"
  total_saved_this_run :: nat

text \<open>
  What the loop reads for the card at one index, before \<^verbatim>\<open>parse_job_data\<close>:
  \<^item> \<open>precheck_html\<close>: the parsed card of the duplicate check at card level;
  \<^item> \<open>title_elem_text\<close>: the text of the title link of the card;
  \<^item> \<open>card_text\<close>: the text of the whole card;
  \<^item> \<open>pane\<close>: what \<^verbatim>\<open>parse_job_data\<close> reads.
  The list of cards is fetched again at each index: fetching raises, the list has
  become too short for the index, or the card is there.
\<close>

record card_env =
  precheck_html :: "card_soup attempt"
  title_elem_text :: "string attempt"
  card_text :: "string attempt"
  pane :: pane_env

datatype 'c fetch = Fetch_raises | Index_out_of_range | Card 'c

text \<open>The duplicate check at card level; an exception inside it is passed over.\<close>

definition precheck_duplicate :: "card_env \<Rightarrow> run_state \<Rightarrow> bool" where
  "precheck_duplicate c st =
     (case precheck_html c of
        Raises \<Rightarrow> False
      | Gives soup \<Rightarrow>
          let check_url = card_url (href_of (title_tag soup))
          in check_url \<noteq> [] \<and> check_url \<in> seen_urls st)"

text \<open>The title for the relevance checks; \<open>Raises\<close> when the fallback on the card's
  text raises.\<close>

definition relevance_title :: "card_env \<Rightarrow> string attempt" where
  "relevance_title c =
     (case title_elem_text c of
        Gives t \<Rightarrow> Gives (fix_doubled_title (strip t))
      | Raises \<Rightarrow>
          (case card_text c of
             Gives t \<Rightarrow> Gives (fix_doubled_title (norm (before_first (CHR 0x0A) t)))
           | Raises \<Rightarrow> Raises))"

definition signature_of :: "job \<Rightarrow> string \<times> string" where
  "signature_of job_data = (strip (lower (title job_data)), strip (lower (company job_data)))"

text \<open>Accepting a record: the four statements under \<^verbatim>\<open>if should_save\<close>.\<close>

definition accept :: "job \<Rightarrow> run_state \<Rightarrow> run_state" where
  "accept job_data st =
     st \<lparr> new_jobs_buffer := new_jobs_buffer st @ [job_data],
          seen_urls := insert (url job_data) (seen_urls st),
          seen_signatures := insert (signature_of job_data) (seen_signatures st),
          total_saved_this_run := total_saved_this_run st + 1 \<rparr>"

text \<open>
  The body of \<^verbatim>\<open>for i in range(len(cards))\<close> after the cap check, on the pair of
  \<^verbatim>\<open>prev_description\<close> and the state. Every \<^verbatim>\<open>continue\<close>, and every exception that the
  \<^verbatim>\<open>except\<close> of the body catches, leaves the pair as it is.
\<close>

definition sh_card :: "config \<Rightarrow> card_env fetch \<Rightarrow> string \<times> run_state \<Rightarrow> string \<times> run_state" where
  "sh_card cfg fetched ps =
     (let prev_description = fst ps; st = snd ps
      in case fetched of
           Fetch_raises \<Rightarrow> ps
         | Index_out_of_range \<Rightarrow> ps
         | Card c \<Rightarrow>
             if precheck_duplicate c st then ps
             else (case relevance_title c of
                Raises \<Rightarrow> ps
              | Gives raw_title \<Rightarrow>
                  if is_missing raw_title then ps
                  else let relevance_type = classify_title cfg raw_title
                       in if relevance_type = SKIP then ps
                          else (case parse_job_data (pane c) prev_description of
                             None \<Rightarrow> ps
                           | Some job_data \<Rightarrow>
                               if url job_data \<in> seen_urls st then ps
                               else if signature_of job_data \<in> seen_signatures st then ps
                               else if should_save cfg relevance_type (description job_data)
                                    then (description job_data, accept job_data st)
                                    else (description job_data, st))))"

text \<open>The loop over the cards of one page, with the cap check at the head of each turn.\<close>

fun sh_cards :: "config \<Rightarrow> card_env fetch list \<Rightarrow> string \<times> run_state \<Rightarrow> string \<times> run_state" where
  "sh_cards cfg [] ps = ps"
| "sh_cards cfg (fetched # rest) ps =
     (if total_saved_this_run (snd ps) \<ge> MAX_JOBS_TO_SCRAPE cfg then ps
      else sh_cards cfg rest (sh_card cfg fetched ps))"








section \<open>\<^verbatim>\<open>parse_job_data\<close> of \<^verbatim>\<open>src/job_scan.py\<close>\<close>

text \<open>
  The dictionary \<^verbatim>\<open>data\<close>. In this version the keys it holds when it is returned depend
  on the path taken, so it is a map.
\<close>

type_synonym dict = "string \<Rightarrow> string option"

text \<open>
  One read by \<^verbatim>\<open>WebDriverWait(driver, 7).until\<close> of the text of the detail pane:
  \<^verbatim>\<open>until\<close> goes on polling after \<^verbatim>\<open>NoSuchElementException\<close> and lets any other
  exception through.
\<close>

datatype pane_reading = No_such_element | Other_exception | Pane_text string

text \<open>A qualification item: the text of its \<^verbatim>\<open>detailText\<close> span and its own text.\<close>

record qualification_elem =
  detail_text :: "string attempt"
  own_text :: "string attempt"

text \<open>
  What the browser shows while \<^verbatim>\<open>parse_job_data\<close> of \<^verbatim>\<open>src/job_scan.py\<close> handles one
  card. \<open>container_polls\<close> are the reads of the detail pane that \<^verbatim>\<open>until\<close> makes before
  its seven seconds are over.
\<close>

record scan_pane_env =
  scan_card_html :: "card_soup attempt"
  scan_scroll_ok :: bool
  scan_link_click_ok :: bool
  scan_script_click_ok :: bool
  container_polls :: "pane_reading list"
  full_description :: "string attempt"
  compensation_detail :: "string attempt"
  compensation_block :: "string attempt"
  qualification_elems :: "qualification_elem list attempt"
  posting_timestamp :: "string attempt"
  scan_clock :: string

text \<open>\<^verbatim>\<open>wait.until(lambda d: raw_title[:10] in d.find_element(...).text)\<close>: \<open>True\<close> when it
  returns, \<open>False\<close> when it raises (\<^verbatim>\<open>TimeoutException\<close> after the last read, or the
  exception of a read).\<close>

fun wait_until_title :: "string \<Rightarrow> pane_reading list \<Rightarrow> bool" where
  "wait_until_title title10 [] = False"
| "wait_until_title title10 (r # rs) =
     (case r of
        No_such_element \<Rightarrow> wait_until_title title10 rs
      | Other_exception \<Rightarrow> False
      | Pane_text txt \<Rightarrow> if sublist title10 txt then True else wait_until_title title10 rs)"

text \<open>The pre-click scrape: the four keys read from the card.\<close>

definition scan_raw_title :: "card_soup \<Rightarrow> string" where
  "scan_raw_title soup = (case title_tag soup of Some a \<Rightarrow> anchor_text a | None \<Rightarrow> ''N/A'')"

definition scan_card_url :: "string \<Rightarrow> string" where
  "scan_card_url href =
     before_first CHR ''?''
       (if href \<noteq> [] \<and> \<not> prefix ''http'' href then ''https://www.simplyhired.ca'' @ href else href)"

definition scan_card_data :: "card_soup \<Rightarrow> dict" where
  "scan_card_data soup =
     [''title'' \<mapsto> scan_raw_title soup,
      ''url'' \<mapsto> scan_card_url (href_of (title_tag soup)),
      ''company'' \<mapsto> (case company_tag soup of Some c \<Rightarrow> c | None \<Rightarrow> ''N/A''),
      ''location'' \<mapsto> (case location_tag soup of Some l \<Rightarrow> l | None \<Rightarrow> ''N/A'')]"

definition scan_card_salary :: "card_soup \<Rightarrow> string" where
  "scan_card_salary soup = (case salary_tag soup of Some t \<Rightarrow> t | None \<Rightarrow> ''N/A'')"

text \<open>The salary of the detail pane with its fallback chain.\<close>

definition scan_detail_salary :: "scan_pane_env \<Rightarrow> string \<Rightarrow> string" where
  "scan_detail_salary env card_salary =
     (case compensation_detail env of
        Gives t \<Rightarrow> t
      | Raises \<Rightarrow> (case compensation_block env of Gives t \<Rightarrow> t | Raises \<Rightarrow> card_salary))"

text \<open>The loop that fills \<^verbatim>\<open>qual_list\<close>; \<open>Raises\<close> when the fallback read of an item
  raises.\<close>

fun scan_qual_list :: "qualification_elem list \<Rightarrow> string list attempt" where
  "scan_qual_list [] = Gives []"
| "scan_qual_list (q # qs) =
     (case (case detail_text q of
              Gives t \<Rightarrow> Gives t
            | Raises \<Rightarrow> (case own_text q of Gives t \<Rightarrow> Gives (strip t) | Raises \<Rightarrow> Raises)) of
        Raises \<Rightarrow> Raises
      | Gives x \<Rightarrow> (case scan_qual_list qs of Raises \<Rightarrow> Raises | Gives xs \<Rightarrow> Gives (x # xs)))"

definition scan_qualifications :: "scan_pane_env \<Rightarrow> string" where
  "scan_qualifications env =
     (case qualification_elems env of
        Raises \<Rightarrow> ''N/A''
      | Gives quals_elems \<Rightarrow>
          (case scan_qual_list quals_elems of
             Raises \<Rightarrow> ''N/A''
           | Gives qual_list \<Rightarrow> if qual_list \<noteq> [] then join ''; '' qual_list else ''N/A''))"

definition scan_date_posted :: "scan_pane_env \<Rightarrow> string" where
  "scan_date_posted env =
     (case posting_timestamp env of
        Gives t \<Rightarrow> strip (remove_all ''Posted'' t)
      | Raises \<Rightarrow> ''N/A'')"

text \<open>The dictionary that the \<^verbatim>\<open>except\<close> branch of the synchronization step fills in
  and returns: the keys of the card, the sentinel for what the detail pane would have
  given, and the salary of the card.\<close>

definition partial_record :: "scan_pane_env \<Rightarrow> card_soup \<Rightarrow> dict" where
  "partial_record env soup =
     (scan_card_data soup)(''description'' \<mapsto> ''N/A'',
        ''salary'' \<mapsto> clean_salary_text_scan (Some (scan_card_salary soup)),
        ''qualifications'' \<mapsto> ''N/A'',
        ''date_posted'' \<mapsto> ''N/A'',
        ''scraped_at'' \<mapsto> scan_clock env)"

text \<open>The dictionary when reading the description raises: the \<^verbatim>\<open>except\<close> of the
  third step sets the description to the sentinel, and the keys that the step would
  have set after the description are not there.\<close>

definition undescribed_record :: "scan_pane_env \<Rightarrow> card_soup \<Rightarrow> dict" where
  "undescribed_record env soup =
     (scan_card_data soup)(''description'' \<mapsto> ''N/A'', ''scraped_at'' \<mapsto> scan_clock env)"

text \<open>The dictionary of the third step when the description \<open>d\<close> is read.\<close>

definition full_record :: "scan_pane_env \<Rightarrow> card_soup \<Rightarrow> string \<Rightarrow> dict" where
  "full_record env soup d =
     (scan_card_data soup)(''description'' \<mapsto> d,
        ''salary'' \<mapsto> clean_salary_text_scan (Some (scan_detail_salary env (scan_card_salary soup))),
        ''qualifications'' \<mapsto> scan_qualifications env,
        ''date_posted'' \<mapsto> scan_date_posted env,
        ''scraped_at'' \<mapsto> scan_clock env)"

text \<open>
  \<^verbatim>\<open>parse_job_data(driver, card)\<close>. \<open>Raises\<close>: an exception leaves the function (the
  scroll and the click by script are outside every \<^verbatim>\<open>try\<close>); \<open>Gives None\<close>: it returns
  \<^verbatim>\<open>None\<close>; \<open>Gives (Some data)\<close>: it returns the dictionary.
\<close>

definition parse_job_data_scan :: "scan_pane_env \<Rightarrow> dict option attempt" where
  "parse_job_data_scan env =
     (case scan_card_html env of
        Raises \<Rightarrow> Gives None
      | Gives soup \<Rightarrow>
          if \<not> scan_scroll_ok env then Raises
          else if \<not> scan_link_click_ok env \<and> \<not> scan_script_click_ok env then Raises
          else if \<not> wait_until_title (take 10 (scan_raw_title soup)) (container_polls env)
          then Gives (Some (partial_record env soup))
          else (case full_description env of
                  Raises \<Rightarrow> Gives (Some (undescribed_record env soup))
                | Gives d \<Rightarrow> Gives (Some (full_record env soup d))))"

section \<open>\<^verbatim>\<open>run\<close> of \<^verbatim>\<open>src/job_scan.py\<close>\<close>

text \<open>
  The state of \<^verbatim>\<open>run\<close>: the rows of the output file (removed at the start of the run)
  and the count \<^verbatim>\<open>total_saved\<close>. \<^verbatim>\<open>save_job\<close> appends a row unless writing it raises,
  which \<^verbatim>\<open>save_job\<close> passes over; \<open>to_csv_ok\<close> tells whether the write goes through.
\<close>

record scan_state =
  csv_rows :: "dict list"
  total_saved :: nat

record scan_card_env =
  scan_card_text :: "string attempt"
  scan_pane :: scan_pane_env
  to_csv_ok :: bool

definition save_job :: "bool \<Rightarrow> dict \<Rightarrow> dict list \<Rightarrow> dict list" where
  "save_job write_ok job_data rows =
     (if job_data = Map.empty then rows
      else if write_ok then rows @ [job_data]
      else rows)"

text \<open>
  The decision of \<^verbatim>\<open>run\<close>. The two \<^verbatim>\<open>print\<close> statements read \<^verbatim>\<open>job_data['title']\<close> and
  \<^verbatim>\<open>job_data['salary']\<close>: \<open>Raises\<close> is the \<^verbatim>\<open>KeyError\<close> of a key that is not there.
\<close>

definition scan_printable :: "dict \<Rightarrow> bool" where
  "scan_printable job_data = (job_data ''title'' \<noteq> None \<and> job_data ''salary'' \<noteq> None)"

definition scan_should_save :: "config \<Rightarrow> relevance \<Rightarrow> dict \<Rightarrow> bool attempt" where
  "scan_should_save cfg relevance job_data =
     (case relevance of
        KEEP_IMMEDIATE \<Rightarrow> if scan_printable job_data then Gives True else Raises
      | CHECK_DESCRIPTION \<Rightarrow>
          (case job_data ''description'' of
             None \<Rightarrow> Raises
           | Some d \<Rightarrow>
               if d \<noteq> ''N/A'' then
                 (if any_in (TECH_KEYWORDS cfg) (lower d)
                  then (if scan_printable job_data then Gives True else Raises)
                  else Gives False)
               else Gives False)
      | SKIP \<Rightarrow> Gives False)"

text \<open>The body of the loop over the cards after the cap check and the fetch of the
  card; every \<^verbatim>\<open>continue\<close> and every caught exception leaves the state as it is.\<close>

definition scan_card :: "config \<Rightarrow> scan_card_env \<Rightarrow> scan_state \<Rightarrow> scan_state" where
  "scan_card cfg c st =
     (case scan_card_text c of
        Raises \<Rightarrow> st
      | Gives t \<Rightarrow>
          let relevance = classify_title cfg (before_first (CHR 0x0A) t)
          in if relevance = SKIP then st
             else (case parse_job_data_scan (scan_pane c) of
                Raises \<Rightarrow> st
              | Gives None \<Rightarrow> st
              | Gives (Some job_data) \<Rightarrow>
                  if job_data = Map.empty then st
                  else (case scan_should_save cfg relevance job_data of
                     Raises \<Rightarrow> st
                   | Gives False \<Rightarrow> st
                   | Gives True \<Rightarrow>
                       st \<lparr> csv_rows := save_job (to_csv_ok c) job_data (csv_rows st),
                            total_saved := total_saved st + 1 \<rparr>)))"







section \<open>\<^verbatim>\<open>extract_qualifications\<close> of the third version\<close>

text \<open>
  The items are the \<^verbatim>\<open>textContent\<close> attributes of the qualification elements: reading
  one may raise, and the attribute may be \<^verbatim>\<open>None\<close>. The first loop trims the texts and
  drops the empty ones; the second removes duplicates with the set \<^verbatim>\<open>seen\<close>.
\<close>

fun trimmed_items :: "string option attempt list \<Rightarrow> string list attempt" where
  "trimmed_items [] = Gives []"
| "trimmed_items (el # els) =
     (case el of
        Raises \<Rightarrow> Raises
      | Gives content \<Rightarrow>
          let t = strip (case content of None \<Rightarrow> [] | Some s \<Rightarrow> s)
          in (case trimmed_items els of
                Raises \<Rightarrow> Raises
              | Gives quals \<Rightarrow> Gives (if t \<noteq> [] then t # quals else quals)))"

fun dedupe :: "string list \<Rightarrow> string set \<Rightarrow> string list \<Rightarrow> string list" where
  "dedupe [] seen out = out"
| "dedupe (q # quals) seen out =
     (if q \<notin> seen then dedupe quals (insert q seen) (out @ [q])
      else dedupe quals seen out)"

definition extract_qualifications :: "string option attempt list attempt \<Rightarrow> string list" where
  "extract_qualifications found =
     (case found of
        Raises \<Rightarrow> []
      | Gives items \<Rightarrow>
          (case trimmed_items items of
             Raises \<Rightarrow> []
           | Gives quals \<Rightarrow> dedupe quals {} []))"

text \<open>\<^verbatim>\<open>data["qualifications"] = "; ".join(quals) if quals else "N/A"\<close> of the third
  version's \<^verbatim>\<open>parse_job_data\<close>.\<close>

definition stored_qualifications :: "string option attempt list attempt \<Rightarrow> string" where
  "stored_qualifications found =
     (let quals = extract_qualifications found
      in if quals \<noteq> [] then join ''; '' quals else ''N/A'')"

section \<open>Notions of the specification\<close>

text \<open>
  The specification's words for three notions, to compare the program with: a loose match
  (containment without regard to case, in either direction), the confirmation of an
  ambiguous title by the description (the description is not the sentinel and contains a
  technical term, without regard to case), and the removal of duplicates that keeps the
  first occurrence of each item.
\<close>

definition loose_match :: "string \<Rightarrow> string \<Rightarrow> bool" where
  "loose_match a b = (sublist (lower a) (lower b) \<or> sublist (lower b) (lower a))"


definition first_seen :: "'a list \<Rightarrow> 'a list" where
  "first_seen xs = rev (remdups (rev xs))"

text \<open>
  What one poll of the synchronization loop of \<^verbatim>\<open>job_scan copy.py\<close> looks for:
  \<open>pane_shows env k sel P\<close> holds when the element \<open>sel\<close> is read at poll \<open>k\<close>, its
  stripped text is not empty and \<open>P\<close> holds of it; the pane agrees with the card when a
  company element loosely matches the card's company, or the title element contains the
  first ten characters of the card's title, without regard to case.
\<close>

definition pane_shows :: "pane_env \<Rightarrow> nat \<Rightarrow> string \<Rightarrow> (string \<Rightarrow> bool) \<Rightarrow> bool" where
  "pane_shows env k sel P =
     (case pane_text env k sel of Raises \<Rightarrow> False | Gives raw \<Rightarrow> strip raw \<noteq> [] \<and> P (strip raw))"

definition pane_agrees :: "pane_env \<Rightarrow> string \<Rightarrow> string \<Rightarrow> nat \<Rightarrow> bool" where
  "pane_agrees env t c k =
     (pane_shows env k ''span[data-testid=\"viewJobCompanyName\"]'' (loose_match c)
    \<or> pane_shows env k ''[data-testid=\"viewJobCompanyName\"]'' (loose_match c)
    \<or> pane_shows env k ''h2[data-testid=\"viewJobBodyJobTitle\"]''
         (\<lambda>txt. sublist (lower (take 10 t)) (lower txt)))"

text \<open>
  Two relations on the states of the run, for the invariants of the loops. \<open>only_new st
  st'\<close>: from \<open>st\<close> to \<open>st'\<close> the buffer has grown by records whose URLs are pairwise
  different and were not in the seen set of \<open>st\<close>, and the seen set has grown by exactly
  these URLs. \<open>within_cap\<close>: the count is at most the cap, and it is the length of the
  buffer (in \<^verbatim>\<open>src/job_scan.py\<close>: the number of rows is at most the count).
\<close>

definition only_new :: "run_state \<Rightarrow> run_state \<Rightarrow> bool" where
  "only_new st st' =
     (\<exists>new. new_jobs_buffer st' = new_jobs_buffer st @ new
        \<and> seen_urls st' = seen_urls st \<union> url ` set new
        \<and> distinct (map url new)
        \<and> url ` set new \<inter> seen_urls st = {})"



text \<open>
  A currency-prefixed digit sequence: a dollar sign, then optional white space, then a
  decimal digit. (\<^verbatim>\<open>C$\<close> and \<^verbatim>\<open>CA$\<close> end with the dollar sign too.)
\<close>

fun currency_digits :: "string \<Rightarrow> bool" where
  "currency_digits [] = False"
| "currency_digits (c # cs) =
     ((c = CHR ''$'' \<and> (case dropWhile isspace cs of [] \<Rightarrow> False | d # _ \<Rightarrow> isdigit d))
      \<or> currency_digits cs)"

section \<open>Notions of the proofs about the patterns\<close>

text \<open>
  A list of matches \<open>climbs\<close> to \<open>n\<close> when it holds a remainder of length \<open>n\<close> before any
  longer one. The other notions say what a pattern consumes: a \<open>tight\<close> pattern never ends
  on white space, a \<open>solid\<close> one moreover consumes something, an \<open>inked\<close> one consumes a
  character that is not white space, a \<open>fronted\<close> one starts with such a character, and a
  \<open>yielding\<close> pattern can always match the empty text, as its last choice. A pattern
  \<open>sheds\<close> white space when, its first match ending on a run of white space, the match
  without any part of that run comes before every shorter match.
\<close>

definition climbs :: "string list \<Rightarrow> nat \<Rightarrow> bool" where
  "climbs L n = (\<exists>pre e post. L = pre @ e # post \<and> length e = n \<and> (\<forall>x\<in>set pre. length x \<le> n))"

definition tight :: "re \<Rightarrow> bool" where
  "tight r = (\<forall>x rest c. rest \<in> set (matches r x) \<and> x = c @ rest \<longrightarrow> c = [] \<or> \<not> isspace (last c))"

definition solid :: "re \<Rightarrow> bool" where
  "solid r = (\<forall>x rest c. rest \<in> set (matches r x) \<and> x = c @ rest \<longrightarrow> c \<noteq> [] \<and> \<not> isspace (last c))"

definition inked :: "re \<Rightarrow> bool" where
  "inked r = (\<forall>x rest c. rest \<in> set (matches r x) \<and> x = c @ rest \<longrightarrow> (\<exists>ch\<in>set c. \<not> isspace ch))"

definition yielding :: "re \<Rightarrow> bool" where
  "yielding r = (\<forall>x. \<exists>l. matches r x = l @ [x])"

definition sheds :: "re \<Rightarrow> bool" where
  "sheds r = (\<forall>x rest others c w. matches r x = rest # others \<and> x = c @ w @ rest \<and> (\<forall>ch\<in>set w. isspace ch)
                \<longrightarrow> climbs (matches r x) (length w + length rest))"

definition fronted :: "re \<Rightarrow> bool" where
  "fronted r = (\<forall>x rest c. rest \<in> set (matches r x) \<and> x = c @ rest \<longrightarrow> c \<noteq> [] \<and> \<not> isspace (hd c))"

text \<open>
  A \<open>spaced\<close> text is what \<^verbatim>\<open>" ".join(text.split())\<close> gives, and any part of it that ends
  on ink: its white space is single blanks, each followed by ink.
\<close>

fun spaced :: "string \<Rightarrow> bool" where
  "spaced [] = True"
| "spaced [c] = (\<not> isspace c)"
| "spaced (c # d # cs) = ((isspace c \<longrightarrow> c = CHR '' '' \<and> \<not> isspace d) \<and> spaced (d # cs))"

section \<open>Example pages\<close>

text \<open>Concrete pages, on which the theorems below are applied.\<close>

definition analyst_soup :: card_soup where
  "analyst_soup = \<lparr> title_tag = Some \<lparr> anchor_text = ''Analyst'', anchor_href = Some ''/job/a1?q=x'' \<rparr>,
     company_tag = Some ''Acme'', location_tag = None, salary_tag = None \<rparr>"

definition analyst_pane :: pane_env where
  "analyst_pane = \<lparr> card_html = Gives analyst_soup, scroll_ok = True, link_click_ok = True,
     script_click_ok = True,
     pane_text = (\<lambda>k sel. if k = 2 \<and> sel = ''[data-testid=\"viewJobCompanyName\"]''
                            then Gives ''Acme Inc.'' else Raises),
     description_polls = [Raises, Gives '' We use SQL daily ''],
     compensation_text = Raises, container_text = Raises,
     qualification_items = Gives [''SQL'', ''SQL'', '' Python''],
     clock = ''2026-01-05 09:00:00'' \<rparr>"

definition analyst_job :: job where
  "analyst_job = \<lparr> title = ''Analyst'', url = ''https://www.simplyhired.ca/job/a1'',
     company = ''Acme'', description = ''We use SQL daily'', salary = ''N/A'',
     qualifications = ''SQL; SQL; Python'', scraped_at = ''2026-01-05 09:00:00'' \<rparr>"

definition analyst_card :: card_env where
  "analyst_card = \<lparr> precheck_html = Gives analyst_soup, title_elem_text = Gives ''Analyst '',
     card_text = Raises, pane = analyst_pane \<rparr>"

definition fresh_state :: run_state where
  "fresh_state = \<lparr> seen_urls = {}, seen_signatures = {}, new_jobs_buffer = [],
     total_saved_this_run = 0 \<rparr>"



definition scan_fresh_state :: scan_state where
  "scan_fresh_state = \<lparr> csv_rows = [], total_saved = 0 \<rparr>"

text \<open>A card whose detail pane goes on showing another job.\<close>

definition scientist_soup :: card_soup where
  "scientist_soup = \<lparr> title_tag = Some \<lparr> anchor_text = ''Data Scientist'', anchor_href = Some ''/job/d7'' \<rparr>,
     company_tag = Some ''Initech'', location_tag = Some ''Toronto, ON'', salary_tag = None \<rparr>"

definition stale_pane :: pane_env where
  "stale_pane = \<lparr> card_html = Gives scientist_soup, scroll_ok = True, link_click_ok = True,
     script_click_ok = True,
     pane_text = (\<lambda>k sel. if sel = ''h2[data-testid=\"viewJobBodyJobTitle\"]''
                            then Gives ''Accountant'' else Gives ''Other Corp''),
     description_polls = [Gives ''Ledgers and audits''],
     compensation_text = Raises, container_text = Raises,
     qualification_items = Gives [],
     clock = ''2026-01-05 09:01:00'' \<rparr>"

definition stale_card :: card_env where
  "stale_card = \<lparr> precheck_html = Gives scientist_soup, title_elem_text = Gives ''Data Scientist'',
     card_text = Raises, pane = stale_pane \<rparr>"

definition stale_scan_pane :: scan_pane_env where
  "stale_scan_pane = \<lparr> scan_card_html = Gives scientist_soup, scan_scroll_ok = True,
     scan_link_click_ok = True, scan_script_click_ok = True,
     container_polls = [No_such_element, Pane_text ''Accountant at Other Corp''],
     full_description = Gives ''Ledgers and audits'',
     compensation_detail = Raises, compensation_block = Raises,
     qualification_elems = Gives [], posting_timestamp = Raises,
     scan_clock = ''2026-01-05 09:01:00'' \<rparr>"

definition stale_scan_card :: scan_card_env where
  "stale_scan_card = \<lparr> scan_card_text = Gives (''Data Scientist'' @ [CHR 0x0A] @ ''Initech''),
     scan_pane = stale_scan_pane, to_csv_ok = True \<rparr>"

text \<open>The analyst's card once more, on a page where the duplicate check at card level
  raises; a second card that the classifier keeps at once; and a configuration with the
  cap at one record.\<close>

definition analyst_card_again :: card_env where
  "analyst_card_again = analyst_card \<lparr> precheck_html := Raises \<rparr>"






chapter \<open>Properties\<close>

section \<open>Words and white space\<close>

lemma isspace_space [simp]: "isspace CHR '' ''"
  by (simp add: isspace_def)

lemma pieces_nonempty [simp]: "pieces s \<noteq> []"
  by (induction s) (auto split: list.splits)

lemma pieces_append_space:
  "isspace c \<Longrightarrow> pieces (xs @ c # ys) = pieces xs @ pieces ys"
  by (induction xs) (auto split: list.splits)

lemma split_append_space:
  "isspace c \<Longrightarrow> split (xs @ c # ys) = split xs @ split ys"
  by (simp add: split_def pieces_append_space)

lemma pieces_no_space_all: "\<forall>w\<in>set (pieces s). \<forall>c\<in>set w. \<not> isspace c"
  by (induction s) (auto split: list.splits)

lemma split_word: "w \<in> set (split s) \<Longrightarrow> w \<noteq> [] \<and> (\<forall>c\<in>set w. \<not> isspace c)"
  using pieces_no_space_all by (auto simp: split_def)

lemma pieces_word: "\<forall>c\<in>set w. \<not> isspace c \<Longrightarrow> pieces w = [w]"
  by (induction w) auto

lemma split_word_id: "w \<noteq> [] \<Longrightarrow> \<forall>c\<in>set w. \<not> isspace c \<Longrightarrow> split w = [w]"
  by (simp add: split_def pieces_word)

lemma split_join:
  "\<forall>w\<in>set ws. w \<noteq> [] \<and> (\<forall>c\<in>set w. \<not> isspace c) \<Longrightarrow> split (join '' '' ws) = ws"
proof (induction ws)
  case Nil
  show ?case by (simp add: split_def)
next
  case (Cons x xs)
  show ?case
  proof (cases xs)
    case Nil
    with Cons.prems show ?thesis by (simp add: split_word_id)
  next
    case (Cons y ys)
    with Cons.prems Cons.IH show ?thesis by (simp add: split_append_space split_word_id)
  qed
qed

lemma split_join_split [simp]: "split (join '' '' (split s)) = split s"
  by (rule split_join) (use split_word in blast)

section \<open>Doubled titles\<close>

lemma fix_doubled_title_twice:
  assumes "W \<noteq> []" and "join '' '' (split W) = W"
  shows "fix_doubled_title (W @ '' '' @ W) = W"
proof -
  let ?ws = "split W"
  have ne: "?ws \<noteq> []" using assms by auto
  have sp: "split (W @ '' '' @ W) = ?ws @ ?ws"
    by (simp add: split_append_space)
  have parts: "split (join '' '' (?ws @ ?ws)) = ?ws @ ?ws"
    by (rule split_join) (use split_word in auto)
  have len: "2 \<le> length ?ws + length ?ws"
    using ne by (cases ?ws) simp_all
  have "fix_doubled_title (W @ '' '' @ W) = join '' '' (take (length ?ws) (?ws @ ?ws))"
    unfolding fix_doubled_title_def Let_def sp parts using len by simp
  then show ?thesis using assms by simp
qed

lemma fix_doubled_title_other:
  assumes "\<not> (even (length (split t))
            \<and> take (length (split t) div 2) (split t) = drop (length (split t) div 2) (split t))"
      and "\<not> (even (length (join '' '' (split t)))
            \<and> take (length (join '' '' (split t)) div 2) (join '' '' (split t))
              = drop (length (join '' '' (split t)) div 2) (join '' '' (split t)))"
  shows "fix_doubled_title t = join '' '' (split t)"
proof (cases "t = []")
  case True
  then show ?thesis by (simp add: fix_doubled_title_def split_def)
next
  case False
  from assms(1) have a: "\<not> (length (split t) \<ge> 2 \<and> length (split t) mod 2 = 0
            \<and> take (length (split t) div 2) (split t) = drop (length (split t) div 2) (split t))"
    by (simp add: even_iff_mod_2_eq_zero)
  from assms(2) have b: "\<not> (length (join '' '' (split t)) > 4 \<and> length (join '' '' (split t)) mod 2 = 0
            \<and> take (length (join '' '' (split t)) div 2) (join '' '' (split t))
              = drop (length (join '' '' (split t)) div 2) (join '' '' (split t)))"
    by (simp add: even_iff_mod_2_eq_zero)
  show ?thesis
    unfolding fix_doubled_title_def Let_def split_join_split
    using False a b by (simp only: if_False)
qed

text \<open>
  Claim C10. A non-empty title \<open>W\<close> whose white space is normalized (it is the join of
  its own words by single spaces), written twice with a space between, is collapsed to
  \<open>W\<close>. A string \<open>t\<close> whose list of words is not an even-length list of two equal
  halves, and whose normalized text is not two equal halves of characters, is returned
  with its white space normalized and otherwise unchanged.
\<close>

theorem fix_doubled_title_collapses:
  "(W \<noteq> [] \<and> join '' '' (split W) = W \<longrightarrow> fix_doubled_title (W @ '' '' @ W) = W)
   \<and> (\<not> (even (length (split t))
           \<and> take (length (split t) div 2) (split t) = drop (length (split t) div 2) (split t))
       \<and> \<not> (even (length (join '' '' (split t)))
           \<and> take (length (join '' '' (split t)) div 2) (join '' '' (split t))
             = drop (length (join '' '' (split t)) div 2) (join '' '' (split t)))
       \<longrightarrow> fix_doubled_title t = join '' '' (split t))"
  using fix_doubled_title_twice fix_doubled_title_other by blast

theorem fix_doubled_title_collapses_witness:
  "fix_doubled_title ''Sr. Statistician Sr. Statistician'' = ''Sr. Statistician''
   \<and> fix_doubled_title ''Data   Analyst II'' = ''Data Analyst II''"
proof -
  let ?W = "''Sr. Statistician''" and ?t = "''Data   Analyst II''"
  have h1: "?W \<noteq> [] \<and> join '' '' (split ?W) = ?W"
    by code_simp
  have h2: "\<not> (even (length (split ?t))
           \<and> take (length (split ?t) div 2) (split ?t) = drop (length (split ?t) div 2) (split ?t))
       \<and> \<not> (even (length (join '' '' (split ?t)))
           \<and> take (length (join '' '' (split ?t)) div 2) (join '' '' (split ?t))
             = drop (length (join '' '' (split ?t)) div 2) (join '' '' (split ?t)))"
    by code_simp
  have n: "join '' '' (split ?t) = ''Data Analyst II''"
    by code_simp
  from fix_doubled_title_collapses[of ?W ?t] h1 h2
  have "fix_doubled_title (?W @ '' '' @ ?W) = ?W" and "fix_doubled_title ?t = join '' '' (split ?t)"
    by blast+
  then show ?thesis by (simp add: n)
qed

section \<open>The relevance classifier\<close>

lemma any_in_iff: "any_in ks t \<longleftrightarrow> (\<exists>k\<in>set ks. sublist k t)"
  by (simp add: any_in_def list_ex_iff)

lemma lower_bad_scraper: "\<forall>b\<in>set (BAD_KEYWORDS scraper_config). lower b = b"
  by code_simp

lemma lower_bad_scan: "\<forall>b\<in>set (BAD_KEYWORDS scan_config). lower b = b"
  by code_simp

lemma bad_keyword_skips:
  "any_in (BAD_KEYWORDS cfg) (lower t) \<Longrightarrow> classify_title cfg t = SKIP"
  by (simp add: classify_title_def)

text \<open>
  Claim C2. With the keyword lists of either version, a title that contains a keyword
  of the exclusion list, compared without regard to case, is classified \<open>SKIP\<close>,
  whatever else it contains: \<open>classify_title\<close> tests the exclusion list first.
\<close>

theorem exclusion_precedence:
  assumes "cfg = scraper_config \<or> cfg = scan_config"
    and "bad \<in> set (BAD_KEYWORDS cfg)"
    and "sublist (lower bad) (lower t)"
  shows "classify_title cfg t = SKIP"
proof -
  have "lower bad = bad"
    using assms(1,2) lower_bad_scraper lower_bad_scan by blast
  with assms(2,3) have "any_in (BAD_KEYWORDS cfg) (lower t)"
    by (auto simp: any_in_iff)
  then show ?thesis by (rule bad_keyword_skips)
qed

theorem exclusion_precedence_witness:
  "''data scientist'' \<in> set (STRONG_KEYWORDS scraper_config)
   \<and> sublist ''data scientist'' (lower ''Senior Data Scientist Intern'')
   \<and> ''intern'' \<in> set (BAD_KEYWORDS scraper_config)
   \<and> sublist (lower ''intern'') (lower ''Senior Data Scientist Intern'')
   \<and> classify_title scraper_config ''Senior Data Scientist Intern'' = SKIP"
proof -
  have w1: "''intern'' \<in> set (BAD_KEYWORDS scraper_config)"
    by (simp add: scraper_config_def)
  have w2: "sublist (lower ''intern'') (lower ''Senior Data Scientist Intern'')"
    by code_simp
  have w3: "sublist ''data scientist'' (lower ''Senior Data Scientist Intern'')"
    by code_simp
  have w4: "''data scientist'' \<in> set (STRONG_KEYWORDS scraper_config)"
    by (simp add: scraper_config_def)
  show ?thesis
    using exclusion_precedence[OF disjI1[OF refl] w1 w2] w1 w2 w3 w4 by blast
qed












section \<open>Qualifications\<close>

lemma remdups_snoc: "remdups (ys @ [x]) = filter (\<lambda>y. y \<noteq> x) (remdups ys) @ [x]"
  by (induction ys) auto

lemma first_seen_Cons: "first_seen (x # xs) = x # first_seen (filter (\<lambda>y. y \<noteq> x) xs)"
  by (simp add: first_seen_def remdups_snoc rev_filter remdups_filter)

lemma first_seen_Nil [simp]: "first_seen [] = []"
  by (simp add: first_seen_def)

lemma dedupe_first_seen:
  "dedupe quals seen out = out @ first_seen (filter (\<lambda>q. q \<notin> seen) quals)"
proof (induction quals arbitrary: seen out)
  case Nil
  show ?case by simp
next
  case (Cons q quals)
  have "filter (\<lambda>y. y \<noteq> q) (filter (\<lambda>q. q \<notin> seen) quals)
        = filter (\<lambda>x. x \<notin> insert q seen) quals"
    by (induction quals) auto
  with Cons show ?case by (simp add: first_seen_Cons)
qed

lemma trimmed_items_texts:
  "trimmed_items (map (\<lambda>s. Gives (Some s)) items)
   = Gives (filter (\<lambda>t. t \<noteq> []) (map strip items))"
  by (induction items) (simp_all add: Let_def)

lemma strip_Nil [simp]: "strip [] = []"
  by (simp add: strip_def)

lemma kept_items:
  "map strip (filter (\<lambda>t. t \<noteq> [] \<and> strip t \<noteq> []) quals) = filter (\<lambda>t. t \<noteq> []) (map strip quals)"
  by (induction quals) auto

lemma join_empty_iff: "\<forall>x\<in>set xs. x \<noteq> [] \<Longrightarrow> join sep xs = [] \<longleftrightarrow> xs = []"
  by (induction sep xs rule: join.induct) auto

text \<open>
  Claim C8, as amended. \<^verbatim>\<open>extract_qualifications\<close> of the third version trims the items,
  drops the empty ones and removes duplicates, keeping the first occurrence of each; its
  \<^verbatim>\<open>parse_job_data\<close> stores them joined by \<^verbatim>\<open>"; "\<close>, and the sentinel when none is
  left. \<^verbatim>\<open>parse_job_data\<close> of the last version trims the items, drops the empty ones and
  stores them joined by \<^verbatim>\<open>"; "\<close>, or the sentinel when none is left; it removes no
  duplicate.
\<close>

theorem qualifications_storage:
  "extract_qualifications (Gives (map (\<lambda>s. Gives (Some s)) items))
     = first_seen (filter (\<lambda>t. t \<noteq> []) (map strip items))
   \<and> distinct (extract_qualifications (Gives (map (\<lambda>s. Gives (Some s)) items)))
   \<and> stored_qualifications (Gives (map (\<lambda>s. Gives (Some s)) items))
     = (if filter (\<lambda>t. t \<noteq> []) (map strip items) = [] then ''N/A''
        else join ''; '' (first_seen (filter (\<lambda>t. t \<noteq> []) (map strip items))))
   \<and> pane_qualifications (Gives items)
     = (if filter (\<lambda>t. t \<noteq> []) (map strip items) = [] then ''N/A''
        else join ''; '' (filter (\<lambda>t. t \<noteq> []) (map strip items)))
   \<and> stored_qualifications (Gives [Gives (Some ''SQL''), Gives (Some ''SQL''), Gives (Some ''Python'')])
     = ''SQL; Python''
   \<and> stored_qualifications (Gives []) = ''N/A''
   \<and> pane_qualifications (Gives []) = ''N/A''"
proof -
  let ?kept = "filter (\<lambda>t. t \<noteq> []) (map strip items)"
  have e: "extract_qualifications (Gives (map (\<lambda>s. Gives (Some s)) items)) = first_seen ?kept"
    by (simp add: extract_qualifications_def trimmed_items_texts dedupe_first_seen)
  have d: "distinct (first_seen ?kept)"
    by (simp add: first_seen_def)
  have n: "first_seen ?kept = [] \<longleftrightarrow> ?kept = []"
    by (simp add: first_seen_def)
  have s: "stored_qualifications (Gives (map (\<lambda>s. Gives (Some s)) items))
     = (if ?kept = [] then ''N/A'' else join ''; '' (first_seen ?kept))"
    unfolding stored_qualifications_def Let_def e using n by simp
  have j: "join ''; '' ?kept = [] \<longleftrightarrow> ?kept = []"
    by (rule join_empty_iff) simp
  have p: "pane_qualifications (Gives items)
     = (if ?kept = [] then ''N/A'' else join ''; '' ?kept)"
    unfolding pane_qualifications_def Let_def kept_items using j by simp
  have x: "stored_qualifications (Gives [Gives (Some ''SQL''), Gives (Some ''SQL''), Gives (Some ''Python'')])
     = ''SQL; Python''"
    by code_simp
  have y: "stored_qualifications (Gives []) = ''N/A''" "pane_qualifications (Gives []) = ''N/A''"
    by code_simp+
  show ?thesis using e d s p x y by simp
qed

text \<open>The claim as stated fails on \<^verbatim>\<open>parse_job_data\<close> of the last version: the
  repeated item is stored twice.\<close>

theorem qualifications_not_deduplicated:
  "pane_qualifications (Gives [''SQL'', ''SQL'', ''Python'']) = ''SQL; SQL; Python''"
  by code_simp


section \<open>The synchronizer\<close>

lemma pane_scan_iff:
  "pane_scan env t c k checks \<longleftrightarrow> (\<exists>ch\<in>set checks. pane_check env t c k ch)"
  by (induction checks) auto

lemma sync_polls_iff:
  "sync_polls env t c k n \<longleftrightarrow> (\<exists>i<n. pane_scan env t c (k + i) pane_checks)"
proof (induction n arbitrary: k)
  case 0
  show ?case by simp
next
  case (Suc n)
  have "(\<exists>i<Suc n. pane_scan env t c (k + i) pane_checks)
        \<longleftrightarrow> pane_scan env t c k pane_checks \<or> (\<exists>i<n. pane_scan env t c (Suc k + i) pane_checks)"
    by (auto simp: less_Suc_eq_0_disj)
  with Suc show ?case by simp
qed

lemma pane_check_company:
  "pane_check env t c k (sel, ''company'') \<longleftrightarrow>
     pane_shows env k sel (loose_match c)"
  by (auto simp: pane_check_def pane_shows_def company_matches_def loose_match_def Let_def split: attempt.splits)

lemma pane_check_title:
  "pane_check env t c k (sel, ''title'') \<longleftrightarrow>
     pane_shows env k sel (\<lambda>txt. sublist (lower (take 10 t)) (lower txt))"
  by (auto simp: pane_check_def pane_shows_def title_matches_def Let_def split: attempt.splits)

lemma pane_scan_checks: "pane_scan env t c k pane_checks \<longleftrightarrow> pane_agrees env t c k"
  unfolding pane_scan_iff pane_agrees_def
  by (simp add: pane_checks_def pane_check_company pane_check_title)

lemma pane_matched_iff: "pane_matched env t c \<longleftrightarrow> (\<exists>k<15. pane_agrees env t c k)"
  by (simp add: pane_matched_def sync_polls_iff pane_scan_checks)

lemma wait_until_title_iff:
  "wait_until_title p polls \<longleftrightarrow>
     (\<exists>pre tx post. polls = pre @ Pane_text tx # post \<and> sublist p tx \<and> Other_exception \<notin> set pre)"
proof (induction polls)
  case Nil
  show ?case by simp
next
  case (Cons r rs)
  let ?ex = "\<lambda>l. \<exists>pre tx post. l = pre @ Pane_text tx # post \<and> sublist p tx \<and> Other_exception \<notin> set pre"
  have up: "?ex (r # rs)" if "?ex rs" "r \<noteq> Other_exception"
  proof -
    from that obtain pre tx post where "rs = pre @ Pane_text tx # post" "sublist p tx"
      "Other_exception \<notin> set pre" by blast
    with that(2) have "r # rs = (r # pre) @ Pane_text tx # post \<and> sublist p tx
      \<and> Other_exception \<notin> set (r # pre)" by auto
    then show ?thesis by blast
  qed
  have down: "?ex rs" if "?ex (r # rs)" "\<forall>y. r = Pane_text y \<longrightarrow> \<not> sublist p y"
  proof -
    from that obtain pre tx post where h: "r # rs = pre @ Pane_text tx # post" "sublist p tx"
      "Other_exception \<notin> set pre" by blast
    with that(2) obtain pre' where "pre = r # pre'" by (cases pre) auto
    with h have "rs = pre' @ Pane_text tx # post \<and> sublist p tx \<and> Other_exception \<notin> set pre'"
      by auto
    then show ?thesis by blast
  qed
  have stop: "\<not> ?ex (r # rs)" if "r = Other_exception"
  proof
    assume "?ex (r # rs)"
    then obtain pre tx post where "r # rs = pre @ Pane_text tx # post"
      "Other_exception \<notin> set pre" by blast
    with that show False by (cases pre) auto
  qed
  have here: "?ex (r # rs)" if "r = Pane_text y" "sublist p y" for y
  proof -
    from that have "r # rs = [] @ Pane_text y # rs \<and> sublist p y \<and> Other_exception \<notin> set []"
      by simp
    then show ?thesis by blast
  qed
  show ?case
  proof (cases r)
    case No_such_element
    then have "?ex (r # rs) \<longleftrightarrow> ?ex rs" using up down by blast
    with Cons No_such_element show ?thesis by simp
  next
    case Other_exception
    with stop show ?thesis by simp
  next
    case (Pane_text y)
    show ?thesis
    proof (cases "sublist p y")
      case True
      with Pane_text here show ?thesis by simp
    next
      case False
      with Pane_text have "?ex (r # rs) \<longleftrightarrow> ?ex rs" using up down by blast
      with Cons Pane_text False show ?thesis by simp
    qed
  qed
qed

text \<open>
  Claim C9, as amended. In \<^verbatim>\<open>job_scan copy.py\<close> the pane is taken to match the card
  exactly when, at one of the fifteen polls, the pane agrees with the card: the company
  is compared loosely, in either direction and without regard to case, with a non-empty
  company text of the pane; the title is compared in one direction only, by the first
  ten characters of the card's title, without regard to case. In \<^verbatim>\<open>src/job_scan.py\<close>
  the wait succeeds exactly when a read of the pane's text contains the first ten
  characters of the card's title as they are written, and no earlier read raised
  anything but \<^verbatim>\<open>NoSuchElementException\<close>.
\<close>

theorem synchronizer_comparisons:
  "(pane_matched env t c \<longleftrightarrow> (\<exists>k<15. pane_agrees env t c k))
   \<and> (wait_until_title (take 10 t) polls \<longleftrightarrow>
        (\<exists>pre tx post. polls = pre @ Pane_text tx # post \<and> sublist (take 10 t) tx
           \<and> Other_exception \<notin> set pre))"
  using pane_matched_iff wait_until_title_iff by blast

theorem synchronizer_comparisons_witness:
  "pane_agrees analyst_pane ''Analyst'' ''Acme'' 2 \<and> pane_matched analyst_pane ''Analyst'' ''Acme''"
proof -
  have a: "pane_agrees analyst_pane ''Analyst'' ''Acme'' 2"
    by code_simp
  then have "\<exists>k<15. pane_agrees analyst_pane ''Analyst'' ''Acme'' k"
    by (intro exI[of _ 2]) simp
  with synchronizer_comparisons[of analyst_pane "''Analyst''" "''Acme''"] a show ?thesis
    by blast
qed

text \<open>The claim as stated fails on the title comparisons: a pane title contained in the
  card's title is refused, a pane title that only shares the first ten characters is
  accepted, and \<^verbatim>\<open>src/job_scan.py\<close> compares with regard to case.\<close>

theorem title_comparison_not_loose:
  "loose_match ''Senior Data Analyst'' ''Data Analyst''
   \<and> \<not> title_matches ''Senior Data Analyst'' ''Data Analyst''
   \<and> \<not> loose_match ''Data Analyst - Toronto'' ''Data Analysis Lead''
   \<and> title_matches ''Data Analyst - Toronto'' ''Data Analysis Lead''
   \<and> loose_match ''Data Analyst'' ''DATA ANALYST''
   \<and> \<not> wait_until_title (take 10 ''Data Analyst'') [Pane_text ''DATA ANALYST'']"
  by code_simp

section \<open>Cards whose pane does not synchronize\<close>

lemma parse_unsynced:
  "card_html env = Gives soup \<Longrightarrow> \<not> pane_matched env (card_title_of soup) (card_company_of soup)
   \<Longrightarrow> parse_job_data env prev = None"
  by (simp add: parse_job_data_def Let_def)

lemma sh_card_none:
  "parse_job_data (pane c) prev = None \<Longrightarrow> sh_card cfg (Card c) (prev, st) = (prev, st)"
  by (simp add: sh_card_def Let_def split: attempt.splits)

lemma parse_scan_unsynced:
  assumes "scan_card_html env = Gives soup" "scan_scroll_ok env"
    "scan_link_click_ok env \<or> scan_script_click_ok env"
    "\<not> wait_until_title (take 10 (scan_raw_title soup)) (container_polls env)"
  shows "parse_job_data_scan env = Gives (Some (partial_record env soup))"
  using assms by (auto simp: parse_job_data_scan_def partial_record_def Let_def)

lemma partial_record_keys:
  "partial_record env soup ''description'' = Some ''N/A''"
  "partial_record env soup ''title'' \<noteq> None"
  "partial_record env soup ''salary'' \<noteq> None"
  "partial_record env soup \<noteq> Map.empty"
  by (auto simp: partial_record_def scan_card_data_def dest: fun_cong[where x = "''description''"])

lemma scan_card_unsynced:
  assumes "scan_card_text c = Gives t"
    "scan_card_html (scan_pane c) = Gives soup" "scan_scroll_ok (scan_pane c)"
    "scan_link_click_ok (scan_pane c) \<or> scan_script_click_ok (scan_pane c)"
    "\<not> wait_until_title (take 10 (scan_raw_title soup)) (container_polls (scan_pane c))"
  shows "scan_card cfg c st =
           (if classify_title cfg (before_first (CHR 0x0A) t) = KEEP_IMMEDIATE
            then st \<lparr> csv_rows := save_job (to_csv_ok c) (partial_record (scan_pane c) soup) (csv_rows st),
                      total_saved := total_saved st + 1 \<rparr>
            else st)"
proof -
  note p = parse_scan_unsynced[OF assms(2-5)]
  show ?thesis
  proof (cases "classify_title cfg (before_first (CHR 0x0A) t)")
    case SKIP
    with assms(1) show ?thesis by (simp add: scan_card_def)
  next
    case KEEP_IMMEDIATE
    with assms(1) p partial_record_keys[of "scan_pane c" soup] show ?thesis
      by (simp add: scan_card_def scan_should_save_def scan_printable_def)
  next
    case CHECK_DESCRIPTION
    with assms(1) p partial_record_keys[of "scan_pane c" soup] show ?thesis
      by (simp add: scan_card_def scan_should_save_def)
  qed
qed

text \<open>
  Claim C1, as amended. In \<^verbatim>\<open>job_scan copy.py\<close>, when no poll of the synchronization loop
  finds the pane to match the card, \<^verbatim>\<open>parse_job_data\<close> returns \<^verbatim>\<open>None\<close> and the loop of
  \<^verbatim>\<open>run_scraper\<close> leaves its state as it is: nothing is buffered. In \<^verbatim>\<open>src/job_scan.py\<close>,
  when the wait for the pane fails, \<^verbatim>\<open>parse_job_data\<close> returns the partial record, with
  the sentinel for the description, the qualifications and the posting date, and \<^verbatim>\<open>run\<close>
  hands it to \<^verbatim>\<open>save_job\<close> and counts it exactly when the title is a strong positive.
\<close>

theorem sync_failure_handling:
  "(card_html env = Gives soup
      \<and> \<not> pane_matched env (card_title_of soup) (card_company_of soup)
    \<longrightarrow> parse_job_data env prev = None)
   \<and> (card_html (pane c) = Gives soup
      \<and> \<not> pane_matched (pane c) (card_title_of soup) (card_company_of soup)
    \<longrightarrow> sh_card cfg (Card c) (prev, st) = (prev, st))
   \<and> (scan_card_text c' = Gives t' \<and> scan_card_html (scan_pane c') = Gives soup'
      \<and> scan_scroll_ok (scan_pane c')
      \<and> (scan_link_click_ok (scan_pane c') \<or> scan_script_click_ok (scan_pane c'))
      \<and> \<not> wait_until_title (take 10 (scan_raw_title soup')) (container_polls (scan_pane c'))
    \<longrightarrow> parse_job_data_scan (scan_pane c') = Gives (Some (partial_record (scan_pane c') soup'))
        \<and> partial_record (scan_pane c') soup' ''description'' = Some ''N/A''
        \<and> partial_record (scan_pane c') soup' ''qualifications'' = Some ''N/A''
        \<and> partial_record (scan_pane c') soup' ''date_posted'' = Some ''N/A''
        \<and> scan_card cfg c' st' =
           (if classify_title cfg (before_first (CHR 0x0A) t') = KEEP_IMMEDIATE
            then st' \<lparr> csv_rows := save_job (to_csv_ok c')
                                      (partial_record (scan_pane c') soup') (csv_rows st'),
                       total_saved := total_saved st' + 1 \<rparr>
            else st'))"
proof (intro conjI impI)
  assume "card_html env = Gives soup
      \<and> \<not> pane_matched env (card_title_of soup) (card_company_of soup)"
  then show "parse_job_data env prev = None"
    using parse_unsynced by blast
next
  assume "card_html (pane c) = Gives soup
      \<and> \<not> pane_matched (pane c) (card_title_of soup) (card_company_of soup)"
  then have "parse_job_data (pane c) prev = None"
    using parse_unsynced by blast
  then show "sh_card cfg (Card c) (prev, st) = (prev, st)"
    by (rule sh_card_none)
next
  assume a: "scan_card_text c' = Gives t' \<and> scan_card_html (scan_pane c') = Gives soup'
      \<and> scan_scroll_ok (scan_pane c')
      \<and> (scan_link_click_ok (scan_pane c') \<or> scan_script_click_ok (scan_pane c'))
      \<and> \<not> wait_until_title (take 10 (scan_raw_title soup')) (container_polls (scan_pane c'))"
  then show "parse_job_data_scan (scan_pane c') = Gives (Some (partial_record (scan_pane c') soup'))"
    using parse_scan_unsynced by blast
  show "partial_record (scan_pane c') soup' ''description'' = Some ''N/A''"
    "partial_record (scan_pane c') soup' ''qualifications'' = Some ''N/A''"
    "partial_record (scan_pane c') soup' ''date_posted'' = Some ''N/A''"
    by (simp_all add: partial_record_def)
  from a show "scan_card cfg c' st' =
           (if classify_title cfg (before_first (CHR 0x0A) t') = KEEP_IMMEDIATE
            then st' \<lparr> csv_rows := save_job (to_csv_ok c')
                                      (partial_record (scan_pane c') soup') (csv_rows st'),
                       total_saved := total_saved st' + 1 \<rparr>
            else st')"
    using scan_card_unsynced[of c' t' soup' cfg st'] by blast
qed

lemma stale_pane_disagrees: "\<not> pane_agrees stale_pane ''Data Scientist'' ''Initech'' k"
proof -
  have f: "strip ''Other Corp'' = ''Other Corp''" "strip ''Accountant'' = ''Accountant''"
    "\<not> loose_match ''Initech'' ''Other Corp''"
    "\<not> sublist (lower ''Data Scien'') (lower ''Accountant'')"
    by code_simp+
  show ?thesis
    by (simp add: pane_agrees_def pane_shows_def stale_pane_def f)
qed

lemma scientist_card:
  "card_title_of scientist_soup = ''Data Scientist''" "card_company_of scientist_soup = ''Initech''"
  by code_simp+

theorem sync_failure_handling_witness:
  "parse_job_data stale_pane [] = None
   \<and> sh_card scraper_config (Card stale_card) ([], fresh_state) = ([], fresh_state)
   \<and> parse_job_data_scan stale_scan_pane = Gives (Some (partial_record stale_scan_pane scientist_soup))
   \<and> total_saved (scan_card scan_config stale_scan_card scan_fresh_state) = 1"
proof -
  have n: "\<not> pane_matched stale_pane (card_title_of scientist_soup) (card_company_of scientist_soup)"
    by (simp add: pane_matched_iff stale_pane_disagrees scientist_card)
  have b: "card_html stale_pane = Gives scientist_soup
      \<and> \<not> pane_matched stale_pane (card_title_of scientist_soup) (card_company_of scientist_soup)"
    using n by (simp add: stale_pane_def)
  have b': "card_html (pane stale_card) = Gives scientist_soup
      \<and> \<not> pane_matched (pane stale_card) (card_title_of scientist_soup) (card_company_of scientist_soup)"
    using b by (simp add: stale_card_def)
  have a: "scan_card_text stale_scan_card = Gives (''Data Scientist'' @ [CHR 0x0A] @ ''Initech'')
      \<and> scan_card_html (scan_pane stale_scan_card) = Gives scientist_soup
      \<and> scan_scroll_ok (scan_pane stale_scan_card)
      \<and> (scan_link_click_ok (scan_pane stale_scan_card) \<or> scan_script_click_ok (scan_pane stale_scan_card))
      \<and> \<not> wait_until_title (take 10 (scan_raw_title scientist_soup))
             (container_polls (scan_pane stale_scan_card))"
    by code_simp
  have k: "classify_title scan_config (before_first (CHR 0x0A) (''Data Scientist'' @ [CHR 0x0A] @ ''Initech''))
           = KEEP_IMMEDIATE"
    by code_simp
  have p: "scan_pane stale_scan_card = stale_scan_pane"
    by (simp add: stale_scan_card_def)
  note t = sync_failure_handling[where env = stale_pane and soup = scientist_soup and prev = "[]"
      and c = stale_card and cfg = scraper_config and st = fresh_state]
  note u = sync_failure_handling[where cfg = scan_config and c' = stale_scan_card
      and t' = "''Data Scientist'' @ [CHR 0x0A] @ ''Initech''" and soup' = scientist_soup
      and st' = scan_fresh_state]
  from t b have 1: "parse_job_data stale_pane [] = None" by blast
  from t b' have 2: "sh_card scraper_config (Card stale_card) ([], fresh_state) = ([], fresh_state)"
    by blast
  from u a have 3: "parse_job_data_scan (scan_pane stale_scan_card)
        = Gives (Some (partial_record (scan_pane stale_scan_card) scientist_soup))"
    and 4: "scan_card scan_config stale_scan_card scan_fresh_state =
           (if classify_title scan_config (before_first (CHR 0x0A) (''Data Scientist'' @ [CHR 0x0A] @ ''Initech'')) = KEEP_IMMEDIATE
            then scan_fresh_state \<lparr> csv_rows := save_job (to_csv_ok stale_scan_card)
                                      (partial_record (scan_pane stale_scan_card) scientist_soup) (csv_rows scan_fresh_state),
                       total_saved := total_saved scan_fresh_state + 1 \<rparr>
            else scan_fresh_state)"
    by blast+
  from 4 k have 5: "total_saved (scan_card scan_config stale_scan_card scan_fresh_state) = 1"
    by (simp add: scan_fresh_state_def)
  show ?thesis using 1 2 3 5 p by simp
qed

text \<open>The claim as stated fails on \<^verbatim>\<open>src/job_scan.py\<close>: the pane never shows the clicked
  job, and yet \<^verbatim>\<open>parse_job_data\<close> returns a record, whose description is the sentinel,
  and \<^verbatim>\<open>run\<close> saves it.\<close>

theorem partial_record_is_saved:
  "\<not> wait_until_title (take 10 (scan_raw_title scientist_soup)) (container_polls stale_scan_pane)
   \<and> parse_job_data_scan stale_scan_pane = Gives (Some (partial_record stale_scan_pane scientist_soup))
   \<and> partial_record stale_scan_pane scientist_soup ''description'' = Some ''N/A''
   \<and> csv_rows (scan_card scan_config stale_scan_card scan_fresh_state)
       = [partial_record stale_scan_pane scientist_soup]
   \<and> total_saved (scan_card scan_config stale_scan_card scan_fresh_state) = 1"
proof -
  have a: "scan_card_text stale_scan_card = Gives (''Data Scientist'' @ [CHR 0x0A] @ ''Initech'')"
    "scan_card_html (scan_pane stale_scan_card) = Gives scientist_soup"
    "scan_scroll_ok (scan_pane stale_scan_card)"
    "scan_link_click_ok (scan_pane stale_scan_card) \<or> scan_script_click_ok (scan_pane stale_scan_card)"
    "\<not> wait_until_title (take 10 (scan_raw_title scientist_soup))
             (container_polls (scan_pane stale_scan_card))"
    by code_simp+
  have k: "classify_title scan_config (before_first (CHR 0x0A) (''Data Scientist'' @ [CHR 0x0A] @ ''Initech''))
           = KEEP_IMMEDIATE"
    by code_simp
  have p: "scan_pane stale_scan_card = stale_scan_pane" "to_csv_ok stale_scan_card"
    by (simp_all add: stale_scan_card_def)
  have e: "partial_record stale_scan_pane scientist_soup \<noteq> Map.empty"
    by (rule partial_record_keys)
  from scan_card_unsynced[OF a, of scan_config scan_fresh_state] k p e
  have "scan_card scan_config stale_scan_card scan_fresh_state
        = \<lparr> csv_rows = [partial_record stale_scan_pane scientist_soup], total_saved = 1 \<rparr>"
    by (simp add: scan_fresh_state_def save_job_def)
  moreover have "parse_job_data_scan stale_scan_pane
        = Gives (Some (partial_record stale_scan_pane scientist_soup))"
    using parse_scan_unsynced[OF a(2-5)] p by simp
  moreover have "partial_record stale_scan_pane scientist_soup ''description'' = Some ''N/A''"
    by (rule partial_record_keys)
  ultimately show ?thesis using a(5) p by simp
qed


section \<open>The loops of the run\<close>

lemma accept_total [simp]:
  "total_saved_this_run (accept j st) = total_saved_this_run st + 1"
  "new_jobs_buffer (accept j st) = new_jobs_buffer st @ [j]"
  "seen_urls (accept j st) = insert (url j) (seen_urls st)"
  by (simp_all add: accept_def)


subsection \<open>The seen set\<close>

lemma only_new_refl [simp]: "only_new st st"
  by (auto simp: only_new_def)









text \<open>An example: the same card comes twice, and the second time the check at card
  level raises; the check after \<^verbatim>\<open>parse_job_data\<close> refuses the record.\<close>

lemma same_url_refused:
  "new_jobs_buffer (snd (sh_cards scraper_config [Card analyst_card, Card analyst_card_again]
      ([], fresh_state))) = [analyst_job]"
  by code_simp

subsection \<open>The cap\<close>

















section \<open>The salary normalizer\<close>

text \<open>
  \<^verbatim>\<open>clean_salary_text\<close> returns the first match of its pattern, stripped. Stripping only
  removes white space at the end, since both patterns start with ink. Both patterns shed
  white space, so the stripped match is the first match of the pattern in the stripped
  match itself, and the second normalization finds it whole.
\<close>

lemma matches_Star:
  "matches (Star a) s =
     concat (map (\<lambda>s'. if length s' < length s then matches (Star a) s' else []) (matches a s)) @ [s]"
  by (rule matches.simps(5))

subsection \<open>What a match leaves is a suffix of the text\<close>

lemma matches_suffix: "rest \<in> set (matches r s) \<Longrightarrow> suffix rest s"
proof (induction r s arbitrary: rest rule: matches.induct)
  case (1 s)
  then show ?case by simp
next
  case (2 p s)
  then show ?case by (auto split: list.splits if_splits simp: suffix_Cons)
next
  case (3 a b s)
  from "3.prems" obtain x where x: "x \<in> set (matches a s)" "rest \<in> set (matches b x)"
    by auto
  from "3.IH"(1)[OF x(1)] "3.IH"(2)[OF x] show ?case
    by (rule suffix_order.trans[rotated])
next
  case (4 a b s)
  then show ?case by auto
next
  case (5 a s)
  from "5.prems" consider "rest = s"
    | x where "x \<in> set (matches a s)" "length x < length s" "rest \<in> set (matches (Star a) x)"
    unfolding matches_Star[of a s] by (auto split: if_splits)
  then show ?case
  proof cases
    case 1
    then show ?thesis by simp
  next
    case 2
    from "5.IH"(1)[OF 2(1)] "5.IH"(2)[OF 2(1,2,3)] show ?thesis
      by (rule suffix_order.trans[rotated])
  qed
qed

lemma matches_length: "rest \<in> set (matches r s) \<Longrightarrow> length rest \<le> length s"
  using matches_suffix suffix_length_le by blast

subsection \<open>Matching a prefix of the text\<close>

lemma concat_filter_map:
  "filter P (concat (map f xs)) = concat (map (\<lambda>x. filter P (f x)) xs)"
  by (induction xs) auto

lemma concat_map_skip:
  "(\<And>x. x \<in> set xs \<Longrightarrow> \<not> Q x \<Longrightarrow> g x = []) \<Longrightarrow>
   concat (map g xs) = concat (map g (filter Q xs))"
  by (induction xs) auto

lemma matches_append:
  "filter (\<lambda>rest. length u \<le> length rest) (matches r (s @ u))
   = map (\<lambda>rest. rest @ u) (matches r s)"
proof (induction r s rule: matches.induct)
  case (1 s)
  show ?case by simp
next
  case (2 p s)
  show ?case by (cases s; cases u) auto
next
  case (3 a b s)
  let ?P = "\<lambda>rest. length u \<le> length rest"
  have skip: "filter ?P (matches b x) = []" if "x \<in> set (matches a (s @ u))" "\<not> ?P x" for x
  proof -
    have "\<not> ?P y" if "y \<in> set (matches b x)" for y
      using matches_length[OF that] \<open>\<not> ?P x\<close> by simp
    then show ?thesis by (simp add: filter_empty_conv)
  qed
  have "filter ?P (matches (Seq a b) (s @ u))
        = concat (map (\<lambda>x. filter ?P (matches b x)) (matches a (s @ u)))"
    by (simp add: concat_filter_map)
  also have "\<dots> = concat (map (\<lambda>x. filter ?P (matches b x)) (filter ?P (matches a (s @ u))))"
    by (rule concat_map_skip) (use skip in blast)
  also have "\<dots> = concat (map (\<lambda>x. filter ?P (matches b x)) (map (\<lambda>rest. rest @ u) (matches a s)))"
    by (simp only: "3.IH"(1))
  also have "\<dots> = concat (map (\<lambda>x. filter ?P (matches b (x @ u))) (matches a s))"
    by (simp add: comp_def)
  also have "\<dots> = concat (map (\<lambda>x. map (\<lambda>rest. rest @ u) (matches b x)) (matches a s))"
    using "3.IH"(2) by (intro arg_cong[where f = concat] map_cong) auto
  also have "\<dots> = map (\<lambda>rest. rest @ u) (matches (Seq a b) s)"
    by (simp add: map_concat comp_def)
  finally show ?case .
next
  case (4 a b s)
  then show ?case by simp
next
  case (5 a s)
  let ?P = "\<lambda>rest. length u \<le> length rest"
  let ?g = "\<lambda>t x. if length x < length t then matches (Star a) x else []"
  have skip: "filter ?P (?g (s @ u) x) = []" if "x \<in> set (matches a (s @ u))" "\<not> ?P x" for x
  proof -
    have "\<not> ?P y" if "y \<in> set (matches (Star a) x)" for y
      using matches_length[OF that] \<open>\<not> ?P x\<close> by simp
    then show ?thesis by (simp add: filter_empty_conv)
  qed
  have step: "filter ?P (?g (s @ u) (x @ u)) = map (\<lambda>rest. rest @ u) (?g s x)"
    if "x \<in> set (matches a s)" for x
    using "5.IH"(2)[OF that] by auto
  have "filter ?P (matches (Star a) (s @ u))
        = concat (map (\<lambda>x. filter ?P (?g (s @ u) x)) (matches a (s @ u))) @ [s @ u]"
    unfolding matches_Star[of a "s @ u"] by (simp add: concat_filter_map)
  also have "concat (map (\<lambda>x. filter ?P (?g (s @ u) x)) (matches a (s @ u)))
        = concat (map (\<lambda>x. filter ?P (?g (s @ u) x)) (filter ?P (matches a (s @ u))))"
    by (rule concat_map_skip) (use skip in blast)
  also have "\<dots> = concat (map (\<lambda>x. filter ?P (?g (s @ u) x)) (map (\<lambda>rest. rest @ u) (matches a s)))"
    by (simp only: "5.IH"(1))
  also have "\<dots> = concat (map (\<lambda>x. filter ?P (?g (s @ u) (x @ u))) (matches a s))"
    by (simp add: comp_def)
  also have "\<dots> = concat (map (\<lambda>x. map (\<lambda>rest. rest @ u) (?g s x)) (matches a s))"
    using step by (intro arg_cong[where f = concat] map_cong) auto
  also have "\<dots> = map (\<lambda>rest. rest @ u) (concat (map (?g s) (matches a s)))"
    by (simp add: map_concat comp_def)
  finally show ?case
    unfolding matches_Star[of a s] by simp
qed

subsection \<open>Lists of matches that reach a given length\<close>

lemma climbs_append: "climbs L n \<Longrightarrow> climbs (L @ L') n"
  unfolding climbs_def by (metis append.assoc append_Cons)

lemma climbs_head: "climbs (rest # others) (length rest)"
  unfolding climbs_def by (intro exI[of _ "[]"] exI[of _ rest] exI[of _ others]) simp

lemma climbs_skip: "climbs L n \<Longrightarrow> \<forall>x\<in>set P. length x \<le> n \<Longrightarrow> climbs (P @ L) n"
proof -
  assume "climbs L n" and P: "\<forall>x\<in>set P. length x \<le> n"
  then obtain pre e post where "L = pre @ e # post" "length e = n" "\<forall>x\<in>set pre. length x \<le> n"
    unfolding climbs_def by blast
  with P have "P @ L = (P @ pre) @ e # post \<and> length e = n \<and> (\<forall>x\<in>set (P @ pre). length x \<le> n)"
    by auto
  then show ?thesis unfolding climbs_def by blast
qed

lemma climbs_Seq_yielding:
  assumes "climbs (matches a x) n" "yielding b"
  shows "climbs (matches (Seq a b) x) n"
proof -
  from assms(1) obtain pre e post where m: "matches a x = pre @ e # post" "length e = n"
    "\<forall>x\<in>set pre. length x \<le> n"
    unfolding climbs_def by blast
  from assms(2) obtain l where l: "matches b e = l @ [e]"
    unfolding yielding_def by blast
  have 1: "\<forall>y\<in>set (concat (map (matches b) pre)). length y \<le> n"
    using m(3) matches_length[of _ b] by fastforce
  have 2: "\<forall>y\<in>set l. length y \<le> n"
    using l m(2) matches_length[of _ b e] by auto
  have "matches (Seq a b) x = (concat (map (matches b) pre) @ l) @ e # concat (map (matches b) post)"
    using m(1) l by simp
  with 1 2 m(2) show ?thesis
    unfolding climbs_def by (metis Un_iff set_append)
qed

subsection \<open>How the properties of a pattern compose\<close>

lemma tightI:
  "(\<And>x rest c. rest \<in> set (matches r x) \<Longrightarrow> x = c @ rest \<Longrightarrow> c = [] \<or> \<not> isspace (last c))
   \<Longrightarrow> tight r"
  unfolding tight_def by blast

lemma tightD:
  "tight r \<Longrightarrow> rest \<in> set (matches r x) \<Longrightarrow> x = c @ rest \<Longrightarrow> c = [] \<or> \<not> isspace (last c)"
  unfolding tight_def by blast

lemma solidI:
  "(\<And>x rest c. rest \<in> set (matches r x) \<Longrightarrow> x = c @ rest \<Longrightarrow> c \<noteq> [] \<and> \<not> isspace (last c))
   \<Longrightarrow> solid r"
  unfolding solid_def by blast

lemma solidD:
  "solid r \<Longrightarrow> rest \<in> set (matches r x) \<Longrightarrow> x = c @ rest \<Longrightarrow> c \<noteq> [] \<and> \<not> isspace (last c)"
  unfolding solid_def by blast

lemma inkedI:
  "(\<And>x rest c. rest \<in> set (matches r x) \<Longrightarrow> x = c @ rest \<Longrightarrow> \<exists>ch\<in>set c. \<not> isspace ch)
   \<Longrightarrow> inked r"
  unfolding inked_def by blast

lemma inkedD:
  "inked r \<Longrightarrow> rest \<in> set (matches r x) \<Longrightarrow> x = c @ rest \<Longrightarrow> \<exists>ch\<in>set c. \<not> isspace ch"
  unfolding inked_def by blast

lemma shedsI:
  "(\<And>x rest others c w. matches r x = rest # others \<Longrightarrow> x = c @ w @ rest
      \<Longrightarrow> \<forall>ch\<in>set w. isspace ch \<Longrightarrow> climbs (matches r x) (length w + length rest))
   \<Longrightarrow> sheds r"
  unfolding sheds_def by blast

lemma shedsD:
  "sheds r \<Longrightarrow> matches r x = rest # others \<Longrightarrow> x = c @ w @ rest
      \<Longrightarrow> \<forall>ch\<in>set w. isspace ch \<Longrightarrow> climbs (matches r x) (length w + length rest)"
  unfolding sheds_def by blast

lemma yieldingD: "yielding r \<Longrightarrow> \<exists>l. matches r x = l @ [x]"
  unfolding yielding_def by blast

lemma consumed_Seq:
  assumes "rest \<in> set (matches (Seq a b) x)" "x = c @ rest"
  obtains y ca cb where "y \<in> set (matches a x)" "rest \<in> set (matches b y)"
    "x = ca @ y" "y = cb @ rest" "c = ca @ cb"
proof -
  from assms(1) obtain y where y: "y \<in> set (matches a x)" "rest \<in> set (matches b y)" by auto
  from matches_suffix[OF y(1)] obtain ca where ca: "x = ca @ y" by (auto elim: suffixE)
  from matches_suffix[OF y(2)] obtain cb where cb: "y = cb @ rest" by (auto elim: suffixE)
  from ca cb assms(2) have "c = ca @ cb" by simp
  with y ca cb that show thesis by blast
qed

lemma last_trail:
  "ca = [] \<or> \<not> isspace (last ca) \<Longrightarrow> cb = [] \<or> \<not> isspace (last cb)
   \<Longrightarrow> ca @ cb = [] \<or> \<not> isspace (last (ca @ cb))"
  by (cases "cb = []") (auto simp: last_append)

lemma solid_tight: "solid r \<Longrightarrow> tight r"
  by (auto simp: solid_def tight_def)

lemma solid_inked: "solid r \<Longrightarrow> inked r"
  unfolding solid_def inked_def by (metis last_in_set)

lemma tight_Eps: "tight Eps"
  by (auto simp: tight_def)

lemma tight_Seq:
  assumes "tight a" "tight b"
  shows "tight (Seq a b)"
proof (rule tightI)
  fix x rest c
  assume "rest \<in> set (matches (Seq a b) x)" "x = c @ rest"
  then obtain y ca cb where y: "y \<in> set (matches a x)" "rest \<in> set (matches b y)"
    "x = ca @ y" "y = cb @ rest" "c = ca @ cb"
    by (rule consumed_Seq)
  show "c = [] \<or> \<not> isspace (last c)"
    unfolding y(5) using tightD[OF assms(1) y(1,3)] tightD[OF assms(2) y(2,4)] by (rule last_trail)
qed

lemma tight_Alt: "tight a \<Longrightarrow> tight b \<Longrightarrow> tight (Alt a b)"
  unfolding tight_def by auto

lemma tight_Star:
  assumes "tight a"
  shows "tight (Star a)"
proof -
  have "c = [] \<or> \<not> isspace (last c)" if "rest \<in> set (matches (Star a) x)" "x = c @ rest" for x rest c
    using that
  proof (induction "length x" arbitrary: x c rule: less_induct)
    case less
    from less.prems(1) consider "rest = x"
      | y where "y \<in> set (matches a x)" "length y < length x" "rest \<in> set (matches (Star a) y)"
      unfolding matches_Star[of a x] by (auto split: if_splits)
    then show ?case
    proof cases
      case 1
      with less.prems(2) show ?thesis by simp
    next
      case 2
      from matches_suffix[OF 2(1)] obtain ca where ca: "x = ca @ y" by (auto elim: suffixE)
      from matches_suffix[OF 2(3)] obtain cb where cb: "y = cb @ rest" by (auto elim: suffixE)
      from ca cb less.prems(2) have c: "c = ca @ cb" by simp
      show ?thesis
        unfolding c using tightD[OF assms 2(1) ca] less.hyps[OF 2(2,3) cb] by (rule last_trail)
    qed
  qed
  then show ?thesis by (rule tightI)
qed

lemma solid_Sym: "(\<And>ch. p ch \<Longrightarrow> \<not> isspace ch) \<Longrightarrow> solid (Sym p)"
  unfolding solid_def by (auto split: list.splits if_splits)

lemma solid_Seq_right:
  assumes "solid b"
  shows "solid (Seq a b)"
proof (rule solidI)
  fix x rest c
  assume "rest \<in> set (matches (Seq a b) x)" "x = c @ rest"
  then obtain y ca cb where y: "y \<in> set (matches a x)" "rest \<in> set (matches b y)"
    "x = ca @ y" "y = cb @ rest" "c = ca @ cb"
    by (rule consumed_Seq)
  from solidD[OF assms y(2,4)] show "c \<noteq> [] \<and> \<not> isspace (last c)"
    unfolding y(5) by (simp add: last_append)
qed

lemma solid_Seq_left:
  assumes "solid a" "tight b"
  shows "solid (Seq a b)"
proof (rule solidI)
  fix x rest c
  assume "rest \<in> set (matches (Seq a b) x)" "x = c @ rest"
  then obtain y ca cb where y: "y \<in> set (matches a x)" "rest \<in> set (matches b y)"
    "x = ca @ y" "y = cb @ rest" "c = ca @ cb"
    by (rule consumed_Seq)
  from solidD[OF assms(1) y(1,3)] tightD[OF assms(2) y(2,4)]
  show "c \<noteq> [] \<and> \<not> isspace (last c)"
    unfolding y(5) by (cases "cb = []") (auto simp: last_append)
qed

lemma solid_Alt: "solid a \<Longrightarrow> solid b \<Longrightarrow> solid (Alt a b)"
  unfolding solid_def by auto

lemma inked_Seq_left:
  assumes "inked a"
  shows "inked (Seq a b)"
proof (rule inkedI)
  fix x rest c
  assume "rest \<in> set (matches (Seq a b) x)" "x = c @ rest"
  then obtain y ca cb where y: "y \<in> set (matches a x)" "rest \<in> set (matches b y)"
    "x = ca @ y" "y = cb @ rest" "c = ca @ cb"
    by (rule consumed_Seq)
  from inkedD[OF assms y(1,3)] show "\<exists>ch\<in>set c. \<not> isspace ch"
    unfolding y(5) by auto
qed

lemma inked_Seq_right:
  assumes "inked b"
  shows "inked (Seq a b)"
proof (rule inkedI)
  fix x rest c
  assume "rest \<in> set (matches (Seq a b) x)" "x = c @ rest"
  then obtain y ca cb where y: "y \<in> set (matches a x)" "rest \<in> set (matches b y)"
    "x = ca @ y" "y = cb @ rest" "c = ca @ cb"
    by (rule consumed_Seq)
  from inkedD[OF assms y(2,4)] show "\<exists>ch\<in>set c. \<not> isspace ch"
    unfolding y(5) by auto
qed

lemma yielding_Eps: "yielding Eps"
  by (simp add: yielding_def)

lemma yielding_Star: "yielding (Star a)"
  unfolding yielding_def using matches_Star by blast

lemma yielding_Alt: "yielding b \<Longrightarrow> yielding (Alt a b)"
  unfolding yielding_def by (metis append.assoc matches.simps(4))

lemma yielding_Seq:
  assumes "yielding a" "yielding b"
  shows "yielding (Seq a b)"
  unfolding yielding_def
proof
  fix x
  from yieldingD[OF assms(1)] obtain la where "matches a x = la @ [x]" by blast
  moreover from yieldingD[OF assms(2)] obtain lb where "matches b x = lb @ [x]" by blast
  ultimately have "matches (Seq a b) x = (concat (map (matches b) la) @ lb) @ [x]" by simp
  then show "\<exists>l. matches (Seq a b) x = l @ [x]" by blast
qed

lemma head_of_append: "L \<noteq> [] \<Longrightarrow> L @ L' = r # others \<Longrightarrow> \<exists>others'. L = r # others'"
  by (cases L) auto

lemma sheds_tight:
  assumes "tight r"
  shows "sheds r"
proof (rule shedsI)
  fix x rest others c w
  assume m: "matches r x = rest # others" and x: "x = c @ w @ rest"
    and w: "\<forall>ch\<in>set w. isspace ch"
  from m have "rest \<in> set (matches r x)" by simp
  moreover from x have "x = (c @ w) @ rest" by simp
  ultimately have "c @ w = [] \<or> \<not> isspace (last (c @ w))"
    by (rule tightD[OF assms])
  with w have "w = []" by (cases "w = []") auto
  then show "climbs (matches r x) (length w + length rest)"
    unfolding m using climbs_head[of rest others] by simp
qed

lemma sheds_Alt:
  assumes "sheds a" "sheds b"
  shows "sheds (Alt a b)"
proof (rule shedsI)
  fix x rest others c w
  assume m: "matches (Alt a b) x = rest # others" and x: "x = c @ w @ rest"
    and w: "\<forall>ch\<in>set w. isspace ch"
  show "climbs (matches (Alt a b) x) (length w + length rest)"
  proof (cases "matches a x")
    case Nil
    with m have "matches b x = rest # others" by simp
    from shedsD[OF assms(2) this x w] Nil show ?thesis by simp
  next
    case (Cons r' others')
    with m have "matches a x = rest # others'" by simp
    from shedsD[OF assms(1) this x w] show ?thesis by (simp add: climbs_append)
  qed
qed

lemma sheds_Seq_yielding:
  assumes "sheds a" "sheds b" "yielding b"
  shows "sheds (Seq a b)"
proof (rule shedsI)
  fix x rest others c w
  assume m: "matches (Seq a b) x = rest # others" and x: "x = c @ w @ rest"
    and w: "\<forall>ch\<in>set w. isspace ch"
  from m obtain a1 as where a1: "matches a x = a1 # as" by (cases "matches a x") auto
  from yieldingD[OF assms(3)] obtain l where l: "matches b a1 = l @ [a1]" by blast
  have ms: "matches (Seq a b) x = matches b a1 @ concat (map (matches b) as)"
    using a1 by simp
  from l have "matches b a1 \<noteq> []" by simp
  from head_of_append[OF this] ms m obtain others' where hb: "matches b a1 = rest # others'"
    by metis
  from a1 have "a1 \<in> set (matches a x)" by simp
  from matches_suffix[OF this] obtain ca where ca: "x = ca @ a1" by (auto elim: suffixE)
  from hb have "rest \<in> set (matches b a1)" by simp
  from matches_suffix[OF this] obtain cb where cb: "a1 = cb @ rest" by (auto elim: suffixE)
  from ca cb x have "c @ w = ca @ cb" by simp
  then consider us where "c = ca @ us" "us @ w = cb" | us where "c @ us = ca" "w = us @ cb"
    by (auto simp: append_eq_append_conv2)
  then show "climbs (matches (Seq a b) x) (length w + length rest)"
  proof cases
    case 1
    with cb have "a1 = us @ w @ rest" by simp
    from shedsD[OF assms(2) hb this w] show ?thesis
      unfolding ms by (rule climbs_append)
  next
    case 2
    with ca have xa: "x = c @ us @ a1" by simp
    from 2 w have "\<forall>ch\<in>set us. isspace ch" by simp
    from shedsD[OF assms(1) a1 xa this]
    have "climbs (matches a x) (length us + length a1)" .
    moreover have "length us + length a1 = length w + length rest"
      using 2 cb by simp
    ultimately have "climbs (matches a x) (length w + length rest)" by simp
    then show ?thesis using assms(3) by (rule climbs_Seq_yielding)
  qed
qed

lemma concat_map_head:
  "concat (map f xs) = r # others \<Longrightarrow>
   \<exists>pre y post others'. xs = pre @ y # post \<and> (\<forall>p\<in>set pre. f p = []) \<and> f y = r # others'"
proof (induction xs)
  case Nil
  then show ?case by simp
next
  case (Cons x xs)
  show ?case
  proof (cases "f x")
    case Nil
    with Cons.prems have "concat (map f xs) = r # others" by simp
    from Cons.IH[OF this] obtain pre y post others' where
      "xs = pre @ y # post" "\<forall>p\<in>set pre. f p = []" "f y = r # others'" by blast
    with Nil have "x # xs = (x # pre) @ y # post \<and> (\<forall>p\<in>set (x # pre). f p = []) \<and> f y = r # others'"
      by simp
    then show ?thesis by blast
  next
    case fx: (Cons r' others')
    with Cons.prems have "r' = r" by simp
    with fx have "x # xs = [] @ x # xs \<and> (\<forall>p\<in>set []. f p = []) \<and> f x = r # others'" by simp
    then show ?thesis by blast
  qed
qed

lemma sheds_Seq_inked:
  assumes "sheds b" "inked b"
  shows "sheds (Seq a b)"
proof (rule shedsI)
  fix x rest others c w
  assume m: "matches (Seq a b) x = rest # others" and x: "x = c @ w @ rest"
    and w: "\<forall>ch\<in>set w. isspace ch"
  from m have "concat (map (matches b) (matches a x)) = rest # others" by simp
  from concat_map_head[OF this] obtain pre y post others' where
    y: "matches a x = pre @ y # post" "\<forall>p\<in>set pre. matches b p = []" "matches b y = rest # others'"
    by blast
  have ms: "matches (Seq a b) x = matches b y @ concat (map (matches b) post)"
    using y(1,2) by simp
  from y(1) have "y \<in> set (matches a x)" by simp
  from matches_suffix[OF this] obtain ca where ca: "x = ca @ y" by (auto elim: suffixE)
  from y(3) have ry: "rest \<in> set (matches b y)" by simp
  from matches_suffix[OF this] obtain cb where cb: "y = cb @ rest" by (auto elim: suffixE)
  from inkedD[OF assms(2) ry cb] obtain ch where ch: "ch \<in> set cb" "\<not> isspace ch" by blast
  from ca cb x have "c @ w = ca @ cb" by simp
  then consider us where "c = ca @ us" "us @ w = cb" | us where "c @ us = ca" "w = us @ cb"
    by (auto simp: append_eq_append_conv2)
  then show "climbs (matches (Seq a b) x) (length w + length rest)"
  proof cases
    case 1
    with cb have "y = us @ w @ rest" by simp
    from shedsD[OF assms(1) y(3) this w] show ?thesis
      unfolding ms by (rule climbs_append)
  next
    case 2
    with w ch show ?thesis by auto
  qed
qed

subsection \<open>Runs of white space\<close>

lemma matches_Star_Sym_Nil: "matches (Star (Sym p)) [] = [[]]"
  by (subst matches_Star) simp

lemma matches_Star_Sym_Cons:
  "matches (Star (Sym p)) (ch # cs) =
     (if p ch then matches (Star (Sym p)) cs @ [ch # cs] else [ch # cs])"
  by (subst matches_Star) simp

lemma climbs_Star_Sym:
  "matches (Star (Sym p)) x = rest # others \<Longrightarrow> length rest \<le> n \<Longrightarrow> n \<le> length x
   \<Longrightarrow> climbs (matches (Star (Sym p)) x) n"
proof (induction x arbitrary: rest others)
  case Nil
  then have "n = 0" by simp
  then show ?case using climbs_head[of "[]" "[]"] by (simp add: matches_Star_Sym_Nil)
next
  case (Cons ch cs)
  show ?case
  proof (cases "p ch")
    case False
    then have e: "matches (Star (Sym p)) (ch # cs) = [ch # cs]"
      by (simp add: matches_Star_Sym_Cons)
    with Cons.prems have "n = length (ch # cs)" by simp
    then show ?thesis unfolding e using climbs_head[of "ch # cs" "[]"] by simp
  next
    case True
    then have e: "matches (Star (Sym p)) (ch # cs) = matches (Star (Sym p)) cs @ [ch # cs]"
      by (simp add: matches_Star_Sym_Cons)
    from yieldingD[OF yielding_Star] obtain l where l: "matches (Star (Sym p)) cs = l @ [cs]"
      by blast
    then have "matches (Star (Sym p)) cs \<noteq> []" by simp
    from head_of_append[OF this] e Cons.prems(1)
    obtain others' where h: "matches (Star (Sym p)) cs = rest # others'"
      by metis
    show ?thesis
    proof (cases "n \<le> length cs")
      case le: True
      from Cons.IH[OF h Cons.prems(2) le] show ?thesis
        unfolding e by (rule climbs_append)
    next
      case False
      with Cons.prems(3) have n: "n = length (ch # cs)" by simp
      have "\<forall>y\<in>set (matches (Star (Sym p)) cs). length y \<le> n"
        using matches_length[of _ "Star (Sym p)" cs] n by fastforce
      moreover have "climbs [ch # cs] n"
        using climbs_head[of "ch # cs" "[]"] n by simp
      ultimately show ?thesis
        unfolding e by (rule climbs_skip[rotated])
    qed
  qed
qed

lemma sheds_Star_white: "sheds (Star white)"
proof (rule shedsI)
  fix x rest others c w
  assume m: "matches (Star white) x = rest # others" and x: "x = c @ w @ rest"
  from x have "length rest \<le> length w + length rest" "length w + length rest \<le> length x"
    by simp_all
  with m show "climbs (matches (Star white) x) (length w + length rest)"
    unfolding white_def by (rule climbs_Star_Sym)
qed

lemma frontedD:
  "fronted r \<Longrightarrow> rest \<in> set (matches r x) \<Longrightarrow> x = c @ rest \<Longrightarrow> c \<noteq> [] \<and> \<not> isspace (hd c)"
  unfolding fronted_def by blast

lemma fronted_Sym: "(\<And>ch. p ch \<Longrightarrow> \<not> isspace ch) \<Longrightarrow> fronted (Sym p)"
  unfolding fronted_def by (auto split: list.splits if_splits)

lemma fronted_Seq:
  assumes "fronted a"
  shows "fronted (Seq a b)"
  unfolding fronted_def
proof (intro allI impI)
  fix x rest c
  assume h: "rest \<in> set (matches (Seq a b) x) \<and> x = c @ rest"
  then obtain y ca cb where y: "y \<in> set (matches a x)" "x = ca @ y" "c = ca @ cb"
    using consumed_Seq [of rest a b x c] by metis
  from frontedD [OF assms y(1) y(2)] have "ca \<noteq> []" "\<not> isspace (hd ca)" by simp_all
  with y(3) show "c \<noteq> [] \<and> \<not> isspace (hd c)" by simp
qed

lemma fronted_Alt: "fronted a \<Longrightarrow> fronted b \<Longrightarrow> fronted (Alt a b)"
  unfolding fronted_def by auto

lemma isspace_lower: "isspace x \<Longrightarrow> lower_char x = x"
  by (auto simp: isspace_def lower_char_def Let_def)

lemma digit_not_space: "isdigit x \<Longrightarrow> \<not> isspace x"
  by (auto simp: isdigit_def isspace_def)

lemma ci_not_space: "\<not> isspace (lower_char ch) \<Longrightarrow> lower_char x = lower_char ch \<Longrightarrow> \<not> isspace x"
  using isspace_lower [of x] by auto

lemma solid_ci: "\<not> isspace (lower_char ch) \<Longrightarrow> solid (ci ch)"
  unfolding ci_def by (rule solid_Sym) (rule ci_not_space)

lemma fronted_ci: "\<not> isspace (lower_char ch) \<Longrightarrow> fronted (ci ch)"
  unfolding ci_def by (rule fronted_Sym) (rule ci_not_space)

lemma solid_word: "s \<noteq> [] \<Longrightarrow> \<not> isspace (lower_char (last s)) \<Longrightarrow> solid (word s)"
proof (induction s rule: word.induct)
  case 1
  then show ?case by simp
next
  case (2 c)
  then show ?case by (simp add: solid_ci)
next
  case (3 c d ds)
  then have "solid (word (d # ds))" by simp
  then show ?case by (simp add: solid_Seq_right)
qed

lemma inks:
  "\<not> isspace (lower_char CHR ''$'')" "\<not> isspace (lower_char CHR ''C'')"
  "\<not> isspace (lower_char CHR ''.'')" "\<not> isspace (lower_char CHR ''/'')"
  "\<not> isspace (lower_char CHR ''-'')" "\<not> isspace (lower_char en_dash)"
  "\<not> isspace (lower_char em_dash)" "\<not> isspace (lower_char CHR ''r'')"
  "\<not> isspace (lower_char CHR ''h'')" "\<not> isspace (lower_char CHR ''o'')"
  "\<not> isspace (lower_char CHR ''k'')" "\<not> isspace (lower_char CHR ''y'')"
  "\<not> isspace (lower_char CHR ''m'')" "\<not> isspace (lower_char CHR ''a'')"
  "\<not> isspace CHR ''k''" "\<not> isspace CHR '',''" "\<not> isspace CHR ''-''"
  "\<not> isspace en_dash" "\<not> isspace em_dash"
  by code_simp+

lemma yielding_Opt: "yielding (Opt r)"
  unfolding Opt_def by (rule yielding_Alt) (rule yielding_Eps)

lemma sheds_Opt: "sheds r \<Longrightarrow> sheds (Opt r)"
  unfolding Opt_def by (rule sheds_Alt) (simp_all add: sheds_tight tight_Eps)

lemma tight_Opt: "tight r \<Longrightarrow> tight (Opt r)"
  unfolding Opt_def by (rule tight_Alt) (simp_all add: tight_Eps)

lemma solid_Plus: "solid r \<Longrightarrow> solid (Plus r)"
  unfolding Plus_def by (rule solid_Seq_left) (simp_all add: tight_Star solid_tight)

lemma solid_digit: "solid digit"
  unfolding digit_def by (rule solid_Sym) (rule digit_not_space)

lemma solid_Rep13: "solid r \<Longrightarrow> solid (Rep13 r)"
  unfolding Rep13_def
  by (rule solid_Seq_left) (simp_all add: tight_Opt tight_Seq solid_tight)

lemma solid_thousands: "solid thousands"
  unfolding thousands_def by (intro solid_Seq_right solid_digit)

lemma solid_fraction: "solid fraction"
  unfolding fraction_def by (intro solid_Seq_right solid_Plus solid_digit)

lemma solid_kilo: "solid kilo"
  unfolding kilo_def
proof (rule solid_Sym)
  fix ch assume "lower_char ch = CHR ''k''"
  then show "\<not> isspace ch" using isspace_lower [of ch] inks(15) by auto
qed

lemma solid_range_sep: "solid range_sep"
  unfolding range_sep_def by (intro solid_Alt solid_ci solid_word inks) (simp_all add: inks)

lemma solid_pay_unit: "solid pay_unit"
  unfolding pay_unit_def by (intro solid_Alt solid_word) (simp_all add: inks)

lemma fronted_currency: "fronted currency"
  unfolding currency_def by (intro fronted_Alt fronted_Seq fronted_ci inks)

subsection \<open>\<^verbatim>\<open>SALARY_RE\<close> gives trailing white space back\<close>

lemma yielding_amount_tail:
  "yielding (Seq (Star white) (Opt kilo))"
  "yielding (Seq (Opt fraction) (Seq (Star white) (Opt kilo)))"
  "yielding (Seq (Star thousands) (Seq (Opt fraction) (Seq (Star white) (Opt kilo))))"
  by (intro yielding_Seq yielding_Star yielding_Opt)+

lemma sheds_amount_tail3: "sheds (Seq (Star white) (Opt kilo))"
  by (intro sheds_Seq_yielding sheds_Star_white sheds_Opt sheds_tight solid_tight solid_kilo
        yielding_Opt)

lemma sheds_amount_tail2: "sheds (Seq (Opt fraction) (Seq (Star white) (Opt kilo)))"
  by (rule sheds_Seq_yielding)
     (simp_all add: sheds_amount_tail3 yielding_amount_tail sheds_tight tight_Opt solid_tight
        solid_fraction)

lemma sheds_amount_tail1:
  "sheds (Seq (Star thousands) (Seq (Opt fraction) (Seq (Star white) (Opt kilo))))"
  by (rule sheds_Seq_yielding)
     (simp_all add: sheds_amount_tail2 yielding_amount_tail sheds_tight tight_Star solid_tight
        solid_thousands)

lemma inked_amount: "inked amount"
  unfolding amount_def
  by (intro inked_Seq_right inked_Seq_left solid_inked solid_Rep13 solid_digit)

lemma sheds_amount: "sheds amount"
  unfolding amount_def
proof (rule sheds_Seq_inked)
  show "sheds (Seq (Rep13 digit)
          (Seq (Star thousands) (Seq (Opt fraction) (Seq (Star white) (Opt kilo)))))"
    by (rule sheds_Seq_yielding)
       (simp_all add: sheds_amount_tail1 yielding_amount_tail sheds_tight solid_tight solid_Rep13
          solid_digit)
  show "inked (Seq (Rep13 digit)
          (Seq (Star thousands) (Seq (Opt fraction) (Seq (Star white) (Opt kilo)))))"
    by (intro inked_Seq_left solid_inked solid_Rep13 solid_digit)
qed

lemma sheds_range_part: "sheds range_part"
  unfolding range_part_def
proof (rule sheds_Seq_inked)
  have a: "sheds (Seq (Opt currency) amount)"
    by (rule sheds_Seq_inked) (simp_all add: sheds_amount inked_amount)
  have b: "sheds (Seq (Star white) (Seq (Opt currency) amount))"
    by (rule sheds_Seq_inked) (simp_all add: a inked_Seq_right inked_amount)
  show "sheds (Seq range_sep (Seq (Star white) (Seq (Opt currency) amount)))"
    by (rule sheds_Seq_inked) (simp_all add: b inked_Seq_right inked_amount)
  show "inked (Seq range_sep (Seq (Star white) (Seq (Opt currency) amount)))"
    by (intro inked_Seq_left solid_inked solid_range_sep)
qed

lemma sheds_unit_part: "sheds unit_part"
  unfolding unit_part_def
  by (intro sheds_tight solid_tight solid_Seq_right solid_pay_unit)

lemma sheds_SALARY_RE: "sheds SALARY_RE"
  unfolding SALARY_RE_def
proof (rule sheds_Seq_inked)
  have y: "yielding (Seq (Opt range_part) (Opt unit_part))"
    by (intro yielding_Seq yielding_Opt)
  have t: "sheds (Seq (Opt range_part) (Opt unit_part))"
    by (intro sheds_Seq_yielding sheds_Opt sheds_range_part sheds_unit_part yielding_Opt)
  show "sheds (Seq amount (Seq (Opt range_part) (Opt unit_part)))"
    by (rule sheds_Seq_yielding) (simp_all add: sheds_amount t y)
  show "inked (Seq amount (Seq (Opt range_part) (Opt unit_part)))"
    by (intro inked_Seq_left inked_amount)
qed

lemma fronted_SALARY_RE: "fronted SALARY_RE"
  unfolding SALARY_RE_def by (intro fronted_Seq fronted_currency)

subsection \<open>\<^verbatim>\<open>salary_pattern\<close> gives trailing white space back\<close>

lemma solid_digits_commas: "solid digits_commas"
  unfolding digits_commas_def
proof (rule solid_Plus, rule solid_Sym)
  fix ch assume "isdigit ch \<or> ch = CHR '',''"
  then show "\<not> isspace ch" using digit_not_space inks(16) by auto
qed

lemma tight_cents: "tight cents"
  unfolding cents_def
  by (intro tight_Opt solid_tight solid_Seq_right solid_digit)

lemma yielding_cents: "yielding cents"
  unfolding cents_def by (rule yielding_Opt)

lemma solid_scan_pay_unit: "solid scan_pay_unit"
  unfolding scan_pay_unit_def by (intro solid_Alt solid_word) (simp_all add: inks)

lemma sheds_scan_range_part: "sheds scan_range_part"
  unfolding scan_range_part_def
proof -
  have "solid (Seq digits_commas cents)"
    by (rule solid_Seq_left) (simp_all add: solid_digits_commas tight_cents)
  then have "solid (Seq (Star white) (Seq digits_commas cents))"
    by (rule solid_Seq_right)
  then have "solid (Seq (Opt (ci CHR ''$'')) (Seq (Star white) (Seq digits_commas cents)))"
    by (rule solid_Seq_right)
  then have "solid (Seq (Star white) (Seq (Opt (ci CHR ''$'')) (Seq (Star white)
    (Seq digits_commas cents))))"
    by (rule solid_Seq_right)
  then have "solid (Seq dash (Seq (Star white) (Seq (Opt (ci CHR ''$'')) (Seq (Star white)
    (Seq digits_commas cents)))))"
    by (rule solid_Seq_right)
  then show "sheds (Seq dash (Seq (Star white) (Seq (Opt (ci CHR ''$'')) (Seq (Star white)
    (Seq digits_commas cents)))))"
    by (intro sheds_tight solid_tight)
qed

lemma sheds_scan_unit_part: "sheds scan_unit_part"
  unfolding scan_unit_part_def
  by (intro sheds_tight solid_tight solid_Seq_right solid_scan_pay_unit)

lemma yielding_scan_tail:
  "yielding (Seq (Opt scan_range_part) (Opt scan_unit_part))"
  "yielding (Seq (Star white) (Seq (Opt scan_range_part) (Opt scan_unit_part)))"
  "yielding (Seq cents (Seq (Star white) (Seq (Opt scan_range_part) (Opt scan_unit_part))))"
  by (intro yielding_Seq yielding_Star yielding_Opt yielding_cents)+

lemma sheds_scan_tail3: "sheds (Seq (Opt scan_range_part) (Opt scan_unit_part))"
  by (intro sheds_Seq_yielding sheds_Opt sheds_scan_range_part sheds_scan_unit_part yielding_Opt)

lemma sheds_scan_tail2:
  "sheds (Seq (Star white) (Seq (Opt scan_range_part) (Opt scan_unit_part)))"
  by (rule sheds_Seq_yielding) (simp_all add: sheds_Star_white sheds_scan_tail3 yielding_scan_tail)

lemma sheds_scan_tail1:
  "sheds (Seq cents (Seq (Star white) (Seq (Opt scan_range_part) (Opt scan_unit_part))))"
  by (rule sheds_Seq_yielding)
     (simp_all add: sheds_tight tight_cents sheds_scan_tail2 yielding_scan_tail)

lemma sheds_salary_pattern: "sheds salary_pattern"
  unfolding salary_pattern_def
proof (rule sheds_Seq_inked)
  have i: "inked (Seq digits_commas (Seq cents (Seq (Star white)
             (Seq (Opt scan_range_part) (Opt scan_unit_part)))))"
    by (intro inked_Seq_left solid_inked solid_digits_commas)
  have s: "sheds (Seq digits_commas (Seq cents (Seq (Star white)
             (Seq (Opt scan_range_part) (Opt scan_unit_part)))))"
    by (rule sheds_Seq_yielding)
       (simp_all add: sheds_tight solid_tight solid_digits_commas sheds_scan_tail1
          yielding_scan_tail)
  show "sheds (Seq (Star white) (Seq digits_commas (Seq cents (Seq (Star white)
             (Seq (Opt scan_range_part) (Opt scan_unit_part))))))"
    by (rule sheds_Seq_inked) (simp_all add: s i)
  show "inked (Seq (Star white) (Seq digits_commas (Seq cents (Seq (Star white)
             (Seq (Opt scan_range_part) (Opt scan_unit_part))))))"
    by (intro inked_Seq_right i)
qed

lemma fronted_salary_pattern: "fronted salary_pattern"
  unfolding salary_pattern_def by (intro fronted_Seq fronted_ci inks)

subsection \<open>The first match of a search\<close>

lemma search_Some:
  "search r t = Some m \<Longrightarrow> \<exists>pre rest others. t = pre @ m @ rest \<and> matches r (m @ rest) = rest # others"
proof (induction t)
  case Nil
  then obtain rest others where m: "matches r [] = rest # others" "m = []"
    by (auto split: list.splits)
  then have "rest \<in> set (matches r [])" by simp
  then have "rest = []" using matches_suffix [of rest r "[]"] by simp
  with m show ?case by simp
next
  case (Cons c cs)
  show ?case
  proof (cases "matches r (c # cs)")
    case Nil
    with Cons.prems have "search r cs = Some m" by simp
    from Cons.IH [OF this] obtain pre rest others
      where "cs = pre @ m @ rest" "matches r (m @ rest) = rest # others" by blast
    then have "c # cs = (c # pre) @ m @ rest \<and> matches r (m @ rest) = rest # others" by simp
    then show ?thesis by blast
  next
    case (Cons rest others)
    with Cons.prems have m: "m = take (length (c # cs) - length rest) (c # cs)" by simp
    from Cons have "rest \<in> set (matches r (c # cs))" by simp
    then have "suffix rest (c # cs)" by (rule matches_suffix)
    then obtain k where k: "c # cs = k @ rest" unfolding suffix_def by blast
    then have "m = k" using m by simp
    with k Cons have "c # cs = [] @ m @ rest \<and> matches r (m @ rest) = rest # others" by simp
    then show ?thesis by blast
  qed
qed

lemma search_whole:
  assumes "matches r s = [] # others" "s \<noteq> []"
  shows "search r s = Some s"
  using assms by (cases s) simp_all

subsection \<open>Stripping a text that starts with ink\<close>

lemma strip_fronted:
  assumes "m \<noteq> []" "\<not> isspace (hd m)"
  shows "strip m = rev (dropWhile isspace (rev m))"
  using assms by (cases m) (simp_all add: strip_def)

lemma strip_trail:
  assumes "m \<noteq> []" "\<not> isspace (hd m)"
  shows "\<exists>w. m = strip m @ w \<and> (\<forall>ch\<in>set w. isspace ch)"
proof -
  have "rev m = takeWhile isspace (rev m) @ dropWhile isspace (rev m)" by simp
  then have "rev (rev m) = rev (takeWhile isspace (rev m) @ dropWhile isspace (rev m))" by simp
  then have "m = rev (dropWhile isspace (rev m)) @ rev (takeWhile isspace (rev m))"
    by (simp only: rev_rev_ident rev_append)
  moreover have "\<forall>ch\<in>set (rev (takeWhile isspace (rev m))). isspace ch"
    by (auto dest: set_takeWhileD)
  ultimately show ?thesis using strip_fronted [OF assms] by metis
qed

lemma strip_ends:
  assumes "m \<noteq> []" "\<not> isspace (hd m)"
  shows "strip m \<noteq> []" "\<not> isspace (hd (strip m))" "\<not> isspace (last (strip m))"
proof -
  let ?d = "dropWhile isspace (rev m)"
  have "hd m \<in> set (rev m)" using assms(1) by simp
  with assms(2) have d: "?d \<noteq> []" by (auto simp: dropWhile_eq_Nil_conv)
  then show "strip m \<noteq> []" using strip_fronted [OF assms] by simp
  have "\<not> isspace (hd ?d)" using d by (rule hd_dropWhile)
  then show "\<not> isspace (last (strip m))" using d strip_fronted [OF assms] by (simp add: last_rev)
  obtain w where w: "m = strip m @ w" using strip_trail [OF assms] by blast
  with \<open>strip m \<noteq> []\<close> have "hd m = hd (strip m)" by (metis hd_append2)
  with assms(2) show "\<not> isspace (hd (strip m))" by simp
qed

lemma strip_fixed:
  assumes "s \<noteq> []" "\<not> isspace (hd s)" "\<not> isspace (last s)"
  shows "strip s = s"
proof -
  from assms(1,3) have "dropWhile isspace (rev s) = rev s" by (cases "rev s") (simp_all add: hd_rev)
  then show ?thesis using strip_fronted [OF assms(1,2)] by simp
qed

subsection \<open>The stripped match is found again, whole\<close>

lemma climbs_filter:
  assumes "climbs L n"
  shows "\<exists>h others. filter (\<lambda>e. n \<le> length e) L = h # others \<and> length h = n"
proof -
  from assms obtain pre e post where L: "L = pre @ e # post" "length e = n"
    "\<forall>x\<in>set pre. length x \<le> n" unfolding climbs_def by blast
  let ?P = "\<lambda>e. n \<le> length e"
  show ?thesis
  proof (cases "filter ?P pre")
    case Nil
    with L show ?thesis by simp
  next
    case (Cons h others)
    then have "h \<in> set (filter ?P pre)" by simp
    then have "length h = n" using L(3) by auto
    with Cons L show ?thesis by simp
  qed
qed

lemma search_strip_fixed:
  assumes r: "sheds r" "fronted r" and s: "search r t = Some m"
  shows "search r (strip m) = Some (strip m)"
    and "strip m \<noteq> []" and "\<not> isspace (hd (strip m))" and "\<not> isspace (last (strip m))"
    and "\<exists>pre post. t = pre @ strip m @ post"
proof -
  from search_Some [OF s] obtain pre rest others
    where t: "t = pre @ m @ rest" and m: "matches r (m @ rest) = rest # others" by blast
  from m have "rest \<in> set (matches r (m @ rest))" by simp
  from frontedD [OF r(2) this refl] have f: "m \<noteq> []" "\<not> isspace (hd m)" by simp_all
  from strip_ends [OF f] show e: "strip m \<noteq> []" "\<not> isspace (hd (strip m))"
    "\<not> isspace (last (strip m))" by simp_all
  from strip_trail [OF f] obtain w where w: "m = strip m @ w" "\<forall>ch\<in>set w. isspace ch" by blast
  from t w(1) have "t = pre @ strip m @ (w @ rest)" by (metis append_assoc)
  then show "\<exists>pre post. t = pre @ strip m @ post" by blast
  let ?x = "m @ rest" and ?u = "w @ rest"
  have x: "?x = [] @ w @ rest \<or> True" by simp
  have x': "m @ rest = strip m @ w @ rest" using w(1) by (metis append_assoc)
  from shedsD [OF r(1) m x' w(2)] have "climbs (matches r (m @ rest)) (length w + length rest)" .
  then have "climbs (matches r (strip m @ ?u)) (length ?u)" using x' by simp
  from climbs_filter [OF this] obtain h others' where
    h: "filter (\<lambda>e. length ?u \<le> length e) (matches r (strip m @ ?u)) = h # others'"
       "length h = length ?u" by blast
  have "filter (\<lambda>e. length ?u \<le> length e) (matches r (strip m @ ?u))
        = map (\<lambda>e. e @ ?u) (matches r (strip m))" by (rule matches_append)
  with h(1) have "map (\<lambda>e. e @ ?u) (matches r (strip m)) = h # others'" by simp
  then obtain e0 es where es: "matches r (strip m) = e0 # es" "h = e0 @ ?u" by auto
  with h(2) have "e0 = []" by simp
  with es(1) have "matches r (strip m) = [] # es" by simp
  then show "search r (strip m) = Some (strip m)" using e(1) by (rule search_whole)
qed

subsection \<open>Collapsed white space\<close>

lemma pieces_not_Nil: "pieces s \<noteq> []"
  by (induction s) (auto split: list.splits)

lemma split_space: "isspace c \<Longrightarrow> split (c # cs) = split cs"
  by (simp add: split_def)

lemma split_ink_Nil: "\<not> isspace c \<Longrightarrow> split [c] = [[c]]"
  by (simp add: split_def)

lemma split_ink_ink:
  assumes "\<not> isspace c" "\<not> isspace d"
  shows "\<exists>w R. split (d # ds) = (d # w) # R \<and> split (c # d # ds) = (c # d # w) # R"
proof -
  obtain v vs where p: "pieces ds = v # vs" using pieces_not_Nil [of ds] by (cases "pieces ds") auto
  with assms show ?thesis by (simp add: split_def)
qed

lemma split_ink_space:
  assumes "\<not> isspace c" "isspace d"
  shows "split (c # d # ds) = [c] # split ds"
  using assms by (simp add: split_def)

lemma join_Cons_Cons: "join sep ((c # w) # R) = c # join sep (w # R)"
  by (cases R) simp_all

lemma split_starts:
  assumes "\<not> isspace c"
  shows "split (c # cs) \<noteq> []"
proof -
  obtain v vs where p: "pieces cs = v # vs" using pieces_not_Nil [of cs] by (cases "pieces cs") auto
  with assms show ?thesis by (simp add: split_def)
qed

lemma spaced_join:
  "spaced m \<Longrightarrow>
   (case m of [] \<Rightarrow> True
    | c # cs \<Rightarrow> join '' '' (split m) = (if isspace c then cs else m))"
proof (induction m rule: spaced.induct)
  case 1
  then show ?case by simp
next
  case (2 c)
  then show ?case by (simp add: split_ink_Nil)
next
  case (3 c d cs)
  from "3.prems" have sp: "spaced (d # cs)" and cd: "isspace c \<Longrightarrow> c = CHR '' '' \<and> \<not> isspace d"
    by simp_all
  from "3.IH" [OF sp] have ih: "join '' '' (split (d # cs)) = (if isspace d then cs else d # cs)"
    by simp
  show ?case
  proof (cases "isspace c")
    case True
    with cd have "\<not> isspace d" by simp
    with ih True show ?thesis by (simp add: split_space)
  next
    case c: False
    show ?thesis
    proof (cases "isspace d")
      case False
      from split_ink_ink [OF c False] obtain w R where
        w: "split (d # cs) = (d # w) # R" "split (c # d # cs) = (c # d # w) # R" by blast
      with ih False have "join '' '' ((d # w) # R) = d # cs" by simp
      then have "join '' '' ((c # d # w) # R) = c # d # cs" by (simp add: join_Cons_Cons)
      with w c show ?thesis by simp
    next
      case True
      with sp have d: "d = CHR '' ''" and cs: "cs \<noteq> []" "\<not> isspace (hd cs)"
        by (cases cs; simp)+
      from ih True have j: "join '' '' (split (d # cs)) = cs" by simp
      have "split (d # cs) = split cs" using True by (rule split_space)
      with j have j': "join '' '' (split cs) = cs" by simp
      from cs have ne: "split cs \<noteq> []" using split_starts [of "hd cs" "tl cs"] by simp
      have "split (c # d # cs) = [c] # split cs" using c True by (rule split_ink_space)
      then have "join '' '' (split (c # d # cs)) = c # CHR '' '' # join '' '' (split cs)"
        using ne by (cases "split cs") simp_all
      with j' d c show ?thesis by simp
    qed
  qed
qed

lemma spaced_fixed:
  assumes "spaced m" "m \<noteq> []" "\<not> isspace (hd m)"
  shows "join '' '' (split m) = m"
  using spaced_join [OF assms(1)] assms(2,3) by (cases m) simp_all

lemma spaced_drop: "spaced (a @ b) \<Longrightarrow> spaced b"
proof (induction a)
  case Nil
  then show ?case by simp
next
  case (Cons c a)
  then show ?case by (cases "a @ b") simp_all
qed

lemma spaced_take: "spaced (a @ b) \<Longrightarrow> a \<noteq> [] \<Longrightarrow> \<not> isspace (last a) \<Longrightarrow> spaced a"
proof (induction a rule: spaced.induct)
  case 1
  then show ?case by simp
next
  case (2 c)
  then show ?case by simp
next
  case (3 c d cs)
  then show ?case by simp
qed

lemma spaced_word: "\<forall>c\<in>set w. \<not> isspace c \<Longrightarrow> spaced w"
  by (induction w rule: spaced.induct) simp_all

lemma spaced_word_then:
  "\<forall>c\<in>set w. \<not> isspace c \<Longrightarrow> spaced r \<Longrightarrow> r \<noteq> [] \<Longrightarrow> \<not> isspace (hd r)
   \<Longrightarrow> spaced (w @ CHR '' '' # r)"
proof (induction w rule: spaced.induct)
  case 1
  then show ?case by (cases r) simp_all
next
  case (2 c)
  then show ?case by (cases r) simp_all
next
  case (3 c d cs)
  then show ?case by simp
qed

lemma pieces_ink: "\<forall>w\<in>set (pieces s). \<forall>c\<in>set w. \<not> isspace c"
proof (induction s)
  case Nil
  then show ?case by simp
next
  case (Cons a s)
  obtain v vs where p: "pieces s = v # vs" using pieces_not_Nil [of s] by (cases "pieces s") auto
  with Cons show ?case by simp
qed

lemma split_ink: "w \<in> set (split s) \<Longrightarrow> w \<noteq> [] \<and> (\<forall>c\<in>set w. \<not> isspace c)"
  unfolding split_def using pieces_ink [of s] by auto

lemma spaced_joined:
  "\<forall>w\<in>set ws. w \<noteq> [] \<and> (\<forall>c\<in>set w. \<not> isspace c) \<Longrightarrow> spaced (join '' '' ws)"
proof (induction ws rule: induct_list012)
  case 1
  then show ?case by simp
next
  case (2 x)
  then show ?case by (simp add: spaced_word)
next
  case (3 x y ys)
  then have sp: "spaced (join '' '' (y # ys))" by simp
  have ne: "join '' '' (y # ys) \<noteq> []" using "3.prems" by (cases ys) simp_all
  have "hd (join '' '' (y # ys)) = hd y" using "3.prems" by (cases ys) simp_all
  moreover have "hd y \<in> set y" using "3.prems" by simp
  ultimately have hd: "\<not> isspace (hd (join '' '' (y # ys)))" using "3.prems" by simp
  have x: "\<forall>c\<in>set x. \<not> isspace c" using "3.prems" by simp
  have "spaced (x @ CHR '' '' # join '' '' (y # ys))"
    using x sp ne hd by (rule spaced_word_then)
  then show ?case by simp
qed

lemma spaced_collapsed: "spaced (join '' '' (split s))"
  using split_ink [of _ s] by (intro spaced_joined) blast

subsection \<open>Normalizing twice\<close>

lemma clean_salary_with_idem:
  assumes r: "sheds r" "fronted r" and na: "clean_salary_with r (Some ''N/A'') = ''N/A''"
  shows "clean_salary_with r (Some (clean_salary_with r text)) = clean_salary_with r text"
proof (cases "text")
  case None
  then show ?thesis using na by (simp add: clean_salary_with_def)
next
  case (Some s)
  show ?thesis
  proof (cases "s = []")
    case True
    with Some show ?thesis using na by (simp add: clean_salary_with_def)
  next
    case False
    let ?t = "join '' '' (split s)"
    show ?thesis
    proof (cases "search r ?t")
      case None
      with Some False show ?thesis using na by (simp add: clean_salary_with_def)
    next
      case (Some m)
      from Some \<open>text = Some s\<close> False have c: "clean_salary_with r text = strip m"
        by (simp add: clean_salary_with_def)
      note f = search_strip_fixed [OF r Some]
      from f(5) obtain pre post where t: "?t = pre @ strip m @ post" by blast
      have "spaced ?t" by (rule spaced_collapsed)
      with t have "spaced (strip m @ post)" using spaced_drop by metis
      then have "spaced (strip m)" using f(2,4) by (rule spaced_take)
      then have j: "join '' '' (split (strip m)) = strip m" using f(2,3) by (rule spaced_fixed)
      have "strip (strip m) = strip m" using f(2,3,4) by (rule strip_fixed)
      with j f(1,2) have "clean_salary_with r (Some (strip m)) = strip m"
        by (simp add: clean_salary_with_def)
      with c show ?thesis by simp
    qed
  qed
qed

lemma clean_na:
  "clean_salary_text (Some ''N/A'') = ''N/A''"
  "clean_salary_text_scan (Some ''N/A'') = ''N/A''"
  by code_simp+


lemma clean_salary_text_idem:
  "clean_salary_text (Some (clean_salary_text text)) = clean_salary_text text"
  unfolding clean_salary_text_def
  using sheds_SALARY_RE fronted_SALARY_RE clean_na(1) [unfolded clean_salary_text_def]
  by (rule clean_salary_with_idem)

lemma clean_salary_text_scan_idem:
  "clean_salary_text_scan (Some (clean_salary_text_scan text)) = clean_salary_text_scan text"
proof (cases "text")
  case None
  then show ?thesis using clean_na(2) by (simp add: clean_salary_text_scan_def)
next
  case (Some s)
  show ?thesis
  proof (cases "s = []")
    case True
    with Some show ?thesis using clean_na(2) by (simp add: clean_salary_text_scan_def)
  next
    case False
    show ?thesis
    proof (cases "search salary_pattern s")
      case None
      with Some False show ?thesis using clean_na(2) by (simp add: clean_salary_text_scan_def)
    next
      case (Some m)
      from Some \<open>text = Some s\<close> False have c: "clean_salary_text_scan text = strip m"
        by (simp add: clean_salary_text_scan_def)
      note f = search_strip_fixed [OF sheds_salary_pattern fronted_salary_pattern Some]
      have "strip (strip m) = strip m" using f(2,3,4) by (rule strip_fixed)
      with f(1,2) have "clean_salary_text_scan (Some (strip m)) = strip m"
        by (simp add: clean_salary_text_scan_def)
      with c show ?thesis by simp
    qed
  qed
qed

lemma currency_digitsI:
  assumes "\<forall>c\<in>set w. isspace c" "isdigit d"
  shows "currency_digits (pre @ CHR ''$'' # w @ d # post)"
proof (induction pre)
  case Nil
  have "dropWhile isspace (w @ d # post) = d # post"
    using assms digit_not_space [of d] by (simp add: dropWhile_append2)
  with assms(2) show ?case by simp
next
  case (Cons a pre)
  then show ?case by simp
qed

lemma of_char_lower:
  "(of_char (lower_char x) :: nat) =
     (if (65 \<le> (of_char x :: nat) \<and> (of_char x :: nat) \<le> 90)
         \<or> (192 \<le> (of_char x :: nat) \<and> (of_char x :: nat) \<le> 222 \<and> (of_char x :: nat) \<noteq> 215)
      then of_char x + 32 else of_char x)"
  by (simp add: lower_char_def Let_def)

lemma lower_dollar: "lower_char x = lower_char CHR ''$'' \<Longrightarrow> x = CHR ''$''"
proof -
  assume a: "lower_char x = lower_char CHR ''$''"
  have d: "lower_char CHR ''$'' = CHR ''$''" by code_simp
  have n: "(of_char CHR ''$'' :: nat) = 36" by simp
  from a d have "(of_char (lower_char x) :: nat) = 36" using n by simp
  then have "(of_char x :: nat) = 36" unfolding of_char_lower by (simp split: if_splits)
  with n have "(of_char x :: nat) = of_char CHR ''$''" by simp
  then show "x = CHR ''$''" by (simp only: of_char_eq_iff)
qed

lemma matches_Seq_elem:
  "rest \<in> set (matches (Seq a b) x) \<Longrightarrow> \<exists>y\<in>set (matches a x). rest \<in> set (matches b y)"
  by auto

lemma matches_ci_elem: "y \<in> set (matches (ci ch) x) \<Longrightarrow> \<exists>e. x = e # y \<and> lower_char e = lower_char ch"
  by (cases x) (simp_all add: ci_def split: if_splits)

lemma currency_consumed:
  assumes "y \<in> set (matches currency x)"
  shows "\<exists>cur. x = cur @ CHR ''$'' # y"
proof -
  have dollar: "\<exists>cur. z = cur @ CHR ''$'' # y" if "y \<in> set (matches (ci CHR ''$'') z)" for z
    using matches_ci_elem [OF that] lower_dollar by auto
  have pre: "\<exists>cur. z = cur @ CHR ''$'' # y" if "\<exists>cur. z' = cur @ CHR ''$'' # y" "suffix z' z" for z z'
    using that unfolding suffix_def by (metis append_assoc)
  from assms consider
      (a) "y \<in> set (matches (Seq (ci CHR ''C'') (Seq (Opt (ci CHR ''A'')) (ci CHR ''$''))) x)"
    | (b) "y \<in> set (matches (Seq (ci CHR ''C'') (ci CHR ''$'')) x)"
    | (c) "y \<in> set (matches (ci CHR ''$'') x)"
    unfolding currency_def by auto
  then show ?thesis
  proof cases
    case a
    then obtain y1 where y1: "y1 \<in> set (matches (ci CHR ''C'') x)"
      "y \<in> set (matches (Seq (Opt (ci CHR ''A'')) (ci CHR ''$'')) y1)"
      using matches_Seq_elem by blast
    then obtain y2 where y2: "y2 \<in> set (matches (Opt (ci CHR ''A'')) y1)"
      "y \<in> set (matches (ci CHR ''$'') y2)"
      using matches_Seq_elem by blast
    have "suffix y2 y1" using y2(1) by (rule matches_suffix)
    moreover have "suffix y1 x" using y1(1) by (rule matches_suffix)
    ultimately have "suffix y2 x" by (rule suffix_order.trans)
    with dollar [OF y2(2)] show ?thesis by (rule pre)
  next
    case b
    then obtain y1 where y1: "y1 \<in> set (matches (ci CHR ''C'') x)"
      "y \<in> set (matches (ci CHR ''$'') y1)"
      using matches_Seq_elem by blast
    have "suffix y1 x" using y1(1) by (rule matches_suffix)
    with dollar [OF y1(2)] show ?thesis by (rule pre)
  next
    case c
    then show ?thesis by (rule dollar)
  qed
qed

lemma Star_Sym_consumed:
  "y \<in> set (matches (Star (Sym p)) x) \<Longrightarrow> \<exists>w. x = w @ y \<and> (\<forall>c\<in>set w. p c)"
proof (induction x)
  case Nil
  then show ?case by (simp add: matches_Star_Sym_Nil)
next
  case (Cons a x)
  show ?case
  proof (cases "y = a # x")
    case True
    then show ?thesis by simp
  next
    case False
    with Cons.prems have p: "p a" "y \<in> set (matches (Star (Sym p)) x)"
      by (auto simp: matches_Star_Sym_Cons split: if_splits)
    from Cons.IH [OF p(2)] obtain w where "x = w @ y" "\<forall>c\<in>set w. p c" by blast
    with p(1) have "a # x = (a # w) @ y \<and> (\<forall>c\<in>set (a # w). p c)" by simp
    then show ?thesis by blast
  qed
qed

lemma amount_consumed:
  assumes "y \<in> set (matches amount x)"
  shows "\<exists>w d post. x = w @ d # post \<and> (\<forall>c\<in>set w. isspace c) \<and> isdigit d"
proof -
  from assms obtain y1 where y1: "y1 \<in> set (matches (Star white) x)"
    "y \<in> set (matches (Seq (Rep13 digit) (Seq (Star thousands) (Seq (Opt fraction)
            (Seq (Star white) (Opt kilo))))) y1)"
    unfolding amount_def using matches_Seq_elem by blast
  from y1(2) obtain y2 where "y2 \<in> set (matches (Rep13 digit) y1)"
    using matches_Seq_elem by blast
  then obtain y3 where "y3 \<in> set (matches digit y1)"
    unfolding Rep13_def using matches_Seq_elem by blast
  then obtain d where d: "y1 = d # y3" "isdigit d"
    unfolding digit_def by (auto split: list.splits if_splits)
  from y1(1) obtain w where "x = w @ y1" "\<forall>c\<in>set w. isspace c"
    unfolding white_def using Star_Sym_consumed by blast
  with d show ?thesis by blast
qed

lemma SALARY_RE_consumed:
  assumes "rest \<in> set (matches SALARY_RE x)"
  shows "currency_digits (pre @ x)"
proof -
  from assms obtain y1 where y1: "y1 \<in> set (matches currency x)"
    "rest \<in> set (matches (Seq amount (Seq (Opt range_part) (Opt unit_part))) y1)"
    unfolding SALARY_RE_def using matches_Seq_elem by blast
  from y1(2) obtain y2 where "y2 \<in> set (matches amount y1)"
    using matches_Seq_elem by blast
  from amount_consumed [OF this] obtain w d post where
    a: "y1 = w @ d # post" "\<forall>c\<in>set w. isspace c" "isdigit d" by blast
  from currency_consumed [OF y1(1)] obtain cur where "x = cur @ CHR ''$'' # y1" by blast
  with a(1) have "pre @ x = (pre @ cur) @ CHR ''$'' # w @ d # post" by simp
  then show ?thesis using currency_digitsI [OF a(2,3), of "pre @ cur" post] by simp
qed

lemma search_currency_digits:
  assumes "search SALARY_RE t = Some m"
  shows "currency_digits t"
proof -
  from search_Some [OF assms] obtain pre rest others where
    t: "t = pre @ m @ rest" "matches SALARY_RE (m @ rest) = rest # others" by blast
  then have "rest \<in> set (matches SALARY_RE (m @ rest))" by simp
  from SALARY_RE_consumed [OF this] t(1) show ?thesis by simp
qed

subsection \<open>Collapsing white space brings no digit next to a currency sign\<close>

lemma split_blank: "\<forall>c\<in>set x. isspace c \<Longrightarrow> split x = []"
  by (induction x) (simp_all add: split_def)

lemma split_first: "dropWhile isspace x = e # es \<Longrightarrow> \<exists>w R. split x = (e # w) # R"
proof (induction x)
  case Nil
  then show ?case by simp
next
  case (Cons a x)
  show ?case
  proof (cases "isspace a")
    case True
    with Cons.prems have "dropWhile isspace x = e # es" by simp
    from Cons.IH [OF this] show ?thesis using True by (simp add: split_space)
  next
    case False
    obtain v vs where p: "pieces x = v # vs" using pieces_not_Nil [of x] by (cases "pieces x") auto
    with False Cons.prems show ?thesis by (simp add: split_def)
  qed
qed

lemma join_first: "join sep ((e # w) # R) = e # join sep (w # R)"
  by (rule join_Cons_Cons)

lemma collapse_digit:
  assumes "(case dropWhile isspace (join '' '' (split x)) of [] \<Rightarrow> False | d # _ \<Rightarrow> isdigit d)"
  shows "(case dropWhile isspace x of [] \<Rightarrow> False | d # _ \<Rightarrow> isdigit d)"
proof (cases "dropWhile isspace x")
  case Nil
  then have "split x = []" by (simp add: split_blank)
  with assms show ?thesis by simp
next
  case (Cons e es)
  from split_first [OF Cons] obtain w R where "split x = (e # w) # R" by blast
  then have j: "join '' '' (split x) = e # join '' '' (w # R)" by (simp add: join_first)
  have "\<not> isspace e" using Cons hd_dropWhile [of isspace x] by simp
  with j have "dropWhile isspace (join '' '' (split x)) = e # join '' '' (w # R)" by simp
  with assms have "isdigit e" by simp
  with Cons show ?thesis by simp
qed

lemma collapse_currency_digits:
  "currency_digits (join '' '' (split s)) \<Longrightarrow> currency_digits s"
proof (induction s rule: spaced.induct)
  case 1
  then show ?case by (simp add: split_def)
next
  case (2 c)
  then show ?case by (cases "isspace c") (simp_all add: split_def)
next
  case (3 c d ds)
  show ?case
  proof (cases "isspace c")
    case True
    with "3.prems" have "currency_digits (join '' '' (split (d # ds)))" by (simp add: split_space)
    then have "currency_digits (d # ds)" by (rule "3.IH")
    then show ?thesis by simp
  next
    case c: False
    show ?thesis
    proof (cases "isspace d")
      case False
      from split_ink_ink [OF c False] obtain w R where
        w: "split (d # ds) = (d # w) # R" "split (c # d # ds) = (c # d # w) # R" by blast
      let ?t = "join '' '' (split (d # ds))"
      have t: "?t = d # join '' '' (w # R)" using w(1) by (simp add: join_first)
      have "join '' '' (split (c # d # ds)) = c # ?t" using w by (simp add: join_first)
      with "3.prems" have "currency_digits (c # ?t)" by simp
      then consider "c = CHR ''$''" "isdigit d" | "currency_digits ?t"
        using t False by auto
      then show ?thesis
      proof cases
        case 1
        with False show ?thesis by simp
      next
        case 2
        then have "currency_digits (d # ds)" by (rule "3.IH")
        then show ?thesis by simp
      qed
    next
      case True
      have s: "split (c # d # ds) = [c] # split ds" using c True by (rule split_ink_space)
      have sd: "split (d # ds) = split ds" using True by (rule split_space)
      let ?t = "join '' '' (split ds)"
      show ?thesis
      proof (cases "split ds")
        case Nil
        with s "3.prems" show ?thesis by simp
      next
        case (Cons v vs)
        with s have "join '' '' (split (c # d # ds)) = c # CHR '' '' # ?t" by simp
        with "3.prems" have "currency_digits (c # CHR '' '' # ?t)" by simp
        then consider "c = CHR ''$''"
            "(case dropWhile isspace (CHR '' '' # ?t) of [] \<Rightarrow> False | e # _ \<Rightarrow> isdigit e)"
          | "currency_digits ?t"
          by auto
        then show ?thesis
        proof cases
          case 1
          have sp: "isspace CHR '' ''" by code_simp
          from 1(2) sp have "(case dropWhile isspace ?t of [] \<Rightarrow> False | e # _ \<Rightarrow> isdigit e)"
            by simp
          then have "(case dropWhile isspace ds of [] \<Rightarrow> False | e # _ \<Rightarrow> isdigit e)"
            by (rule collapse_digit)
          with 1(1) True show ?thesis by simp
        next
          case 2
          with sd have "currency_digits (join '' '' (split (d # ds)))" by simp
          then have "currency_digits (d # ds)" by (rule "3.IH")
          then show ?thesis by simp
        qed
      qed
    qed
  qed
qed

lemma no_currency_digits_sentinel:
  assumes "\<not> currency_digits s"
  shows "clean_salary_text (Some s) = ''N/A''"
proof (cases "search SALARY_RE (join '' '' (split s))")
  case None
  then show ?thesis by (simp add: clean_salary_text_def clean_salary_with_def)
next
  case (Some m)
  then have "currency_digits (join '' '' (split s))" by (rule search_currency_digits)
  then have "currency_digits s" by (rule collapse_currency_digits)
  with assms show ?thesis by simp
qed


subsection \<open>The claims about the salary normalizer\<close>

lemma salary_absent:
  "clean_salary_with pat None = ''N/A''"
  "clean_salary_with pat (Some []) = ''N/A''"
  "clean_salary_text_scan None = ''N/A''"
  "clean_salary_text_scan (Some []) = ''N/A''"
  by (simp_all add: clean_salary_with_def clean_salary_text_scan_def)

lemma currency_digits_examples:
  "\<not> currency_digits ''$,''"
  "\<not> currency_digits ''Salary: TBD''"
  by code_simp+

lemma comma_examples:
  "clean_salary_text_scan (Some ''$,'') = ''$,''"
  "clean_salary_text (Some ''$,'') = ''N/A''"
  by code_simp+

text \<open>
  Claim C6. The salary normalizer is idempotent: normalizing what it returned returns the
  same string, for \<^verbatim>\<open>clean_salary_text\<close> of \<^verbatim>\<open>job_scan copy.py\<close> and for the one of
  \<^verbatim>\<open>src/job_scan.py\<close>, whatever the input (\<open>None\<close> and the empty string included); and both
  return the sentinel \<^verbatim>\<open>"N/A"\<close> on the sentinel.
\<close>

theorem salary_normalizer_idempotent:
  "clean_salary_text (Some (clean_salary_text text)) = clean_salary_text text
   \<and> clean_salary_text_scan (Some (clean_salary_text_scan text)) = clean_salary_text_scan text
   \<and> clean_salary_text (Some ''N/A'') = ''N/A''
   \<and> clean_salary_text_scan (Some ''N/A'') = ''N/A''"
  using clean_salary_text_idem [of "text"] clean_salary_text_scan_idem [of "text"] clean_na
  by simp

text \<open>
  Claim C7. On an absent or empty input the normalizer returns the sentinel \<^verbatim>\<open>"N/A"\<close>; in
  \<^verbatim>\<open>job_scan copy.py\<close> it does so whatever the pattern is, that is without evaluating it,
  and it returns the sentinel on every text in which no dollar sign is followed, after
  optional white space, by a digit.
\<close>

theorem salary_sentinel:
  "clean_salary_with pat None = ''N/A''
   \<and> clean_salary_with pat (Some []) = ''N/A''
   \<and> clean_salary_text_scan None = ''N/A''
   \<and> clean_salary_text_scan (Some []) = ''N/A''
   \<and> (\<not> currency_digits s \<longrightarrow> clean_salary_text (Some s) = ''N/A'')"
  using salary_absent(1,2) [of pat] salary_absent(3,4) no_currency_digits_sentinel [of s] by simp

theorem salary_sentinel_witness:
  "\<not> currency_digits ''Salary: TBD'' \<and> clean_salary_text (Some ''Salary: TBD'') = ''N/A''"
  using salary_sentinel [of SALARY_RE "''Salary: TBD''"] currency_digits_examples(2) by simp

text \<open>
  In \<^verbatim>\<open>src/job_scan.py\<close> the class \<^verbatim>\<open>[\d,]+\<close> accepts a comma alone: the text \<^verbatim>\<open>"$,"\<close> holds
  no digit at all and is returned as a salary, where \<^verbatim>\<open>job_scan copy.py\<close> returns the
  sentinel.
\<close>

theorem comma_taken_for_salary:
  "\<not> currency_digits ''$,''
   \<and> clean_salary_text_scan (Some ''$,'') = ''$,''
   \<and> clean_salary_text (Some ''$,'') = ''N/A''"
  using currency_digits_examples(1) comma_examples by simp

end
